theory Spec2Isabelle
  imports Complex_Main "HOL-Library.Word" "HOL-Library.Log_Nat" "HOL-Library.AList"
    "HOL-Library.Sublist"
begin

section \<open>Go types as seen through reflection\<close>

text \<open>
  The packer package works on \<^verbatim>\<open>reflect.Type\<close> values. The model keeps the types the
  packer distinguishes: the predeclared types it switches on, defined types over them
  (\<^verbatim>\<open>type StringEnum string\<close>), pointers, slices, struct types (identified by name, their
  field tables live in the environment so that \<^verbatim>\<open>type recursive struct { Next *recursive }\<close>
  can be written), and the two dynamic container types \<^verbatim>\<open>[]interface{}\<close> (\<open>TSlice TAny\<close>)
  and \<^verbatim>\<open>map[string]interface{}\<close> (\<open>TMapAny\<close>). Two \<^verbatim>\<open>reflect.Type\<close> values are equal
  exactly when the types are identical, which is equality of this datatype.
\<close>

datatype gokind = KBool | KInt | KInt32 | KFloat64 | KString | KPtr | KSlice | KStruct
  | KInterface | KMap

datatype gotype =
    TBool | TInt | TInt32 | TFloat64 | TString
  | TDefined string gotype
  | TPtr gotype
  | TSlice gotype
  | TStruct string
  | TAny
  | TMapAny

text \<open>\<^verbatim>\<open>reflect.Type.Kind\<close>: a defined type has the kind of its underlying type.\<close>

fun kind :: "gotype \<Rightarrow> gokind" where
  "kind TBool = KBool"
| "kind TInt = KInt"
| "kind TInt32 = KInt32"
| "kind TFloat64 = KFloat64"
| "kind TString = KString"
| "kind (TDefined n u) = kind u"
| "kind (TPtr t) = KPtr"
| "kind (TSlice t) = KSlice"
| "kind (TStruct n) = KStruct"
| "kind TAny = KInterface"
| "kind TMapAny = KMap"

text \<open>\<^verbatim>\<open>reflect.Type.Elem\<close>; it panics (\<open>None\<close>) on a type that has no element type.\<close>

fun Elem :: "gotype \<Rightarrow> gotype option" where
  "Elem (TPtr t) = Some t"
| "Elem (TSlice t) = Some t"
| "Elem (TDefined n u) = Elem u"
| "Elem TMapAny = Some TAny"
| "Elem _ = None"

section \<open>Dynamic input values\<close>

text \<open>
  \<^verbatim>\<open>float64\<close>: the finite values are rational numbers (every finite IEEE double is one;
  the two zeros are identified), plus the infinities and NaN. Only comparison with
  constants and conversion from and to integers is used by the packer.
\<close>

datatype float64 = Finite rat | PosInf | NegInf | NaN

fun f64_less :: "float64 \<Rightarrow> float64 \<Rightarrow> bool" where
  "f64_less NaN _ = False"
| "f64_less _ NaN = False"
| "f64_less (Finite a) (Finite b) = (a < b)"
| "f64_less (Finite a) PosInf = True"
| "f64_less (Finite a) NegInf = False"
| "f64_less NegInf NegInf = False"
| "f64_less NegInf _ = True"
| "f64_less PosInf _ = False"

fun f64_neq :: "float64 \<Rightarrow> float64 \<Rightarrow> bool" where
  "f64_neq NaN _ = True"
| "f64_neq _ NaN = True"
| "f64_neq a b = (a \<noteq> b)"

definition MinInt32 :: int where "MinInt32 = - (2 ^ 31)"
definition MaxInt32 :: int where "MaxInt32 = 2 ^ 31 - 1"

text \<open>
  The conversion \<^verbatim>\<open>int32(input)\<close> of a \<^verbatim>\<open>float64\<close> truncates towards zero. Outside
  the \<^verbatim>\<open>int32\<close> range (and on NaN) the Go specification leaves the result to the
  implementation; the model takes the low 32 bits of the truncation, and
  \<^verbatim>\<open>0x80000000\<close> for the non-finite values, as amd64 does.
\<close>

definition trunc_rat :: "rat \<Rightarrow> int" where
  "trunc_rat r = (if 0 \<le> r then \<lfloor>r\<rfloor> else \<lceil>r\<rceil>)"

fun int32_of_float64 :: "float64 \<Rightarrow> 32 word" where
  "int32_of_float64 (Finite r) = word_of_int (trunc_rat r)"
| "int32_of_float64 _ = word_of_int MinInt32"

text \<open>
  \<^verbatim>\<open>float64(input)\<close> of an integer rounds to the nearest value with a 53 bit mantissa,
  ties to even; every \<^verbatim>\<open>int32\<close> is exact.
\<close>

definition float64_of_int :: "int \<Rightarrow> float64" where
  "float64_of_int n =
     (let a = \<bar>n\<bar>; k = bitlen a - 53 in
      if k \<le> 0 then Finite (of_int n)
      else
        let q = a div 2 ^ nat k; r = a mod 2 ^ nat k; h = 2 ^ nat (k - 1);
            q' = (if h < r \<or> (r = h \<and> odd q) then q + 1 else q)
        in Finite (of_int (sgn n * q' * 2 ^ nat k)))"

text \<open>
  The values a packer receives as \<^verbatim>\<open>interface{}\<close>: what the query parser and a JSON
  decoder produce (nil, booleans, \<^verbatim>\<open>int\<close> and \<^verbatim>\<open>int32\<close>, \<^verbatim>\<open>float64\<close>, strings,
  \<^verbatim>\<open>[]interface{}\<close>, \<^verbatim>\<open>map[string]interface{}\<close>) and values of defined types over
  them. \<^verbatim>\<open>int\<close> is the 64 bit integer of the common platforms.
\<close>

datatype ivalue =
    VNil
  | VBool bool
  | VInt "64 word"
  | VInt32 "32 word"
  | VFloat64 float64
  | VString string
  | VDefined string ivalue
  | VList "ivalue list"
  | VMap "(string \<times> ivalue) list"

text \<open>\<^verbatim>\<open>reflect.TypeOf\<close>; the nil interface has no type.\<close>

fun typeof :: "ivalue \<Rightarrow> gotype option" where
  "typeof VNil = None"
| "typeof (VBool b) = Some TBool"
| "typeof (VInt i) = Some TInt"
| "typeof (VInt32 i) = Some TInt32"
| "typeof (VFloat64 f) = Some TFloat64"
| "typeof (VString s) = Some TString"
| "typeof (VDefined n v) = (case typeof v of None \<Rightarrow> None | Some t \<Rightarrow> Some (TDefined n t))"
| "typeof (VList xs) = Some (TSlice TAny)"
| "typeof (VMap m) = Some TMapAny"

section \<open>Errors\<close>

text \<open>
  An error created from a constant format string is \<open>Error\<close> with that message; the
  errors whose message is formatted from arguments keep the arguments. A Go panic is the
  value \<open>Panic\<close>.
\<close>

datatype error =
    Error string
  | IncompatibleType "gotype option"
  | CouldNotUnmarshal ivalue gotype error
  | UnmarshalError string
  | NotPointerOrNullable gotype
  | CanNotUnmarshal string gotype
  | ExpectedSlice gotype
  | NotAnInputKind string
  | ExpectedStruct gotype
  | DoesNotDefineField gotype string
  | MustBeExported string
  | MustBeNonPointer string
  | FieldError string error
  | Panic string

section \<open>Built-in scalar coercion\<close>

text \<open>
  Conversion to a type of kind string (\<^verbatim>\<open>reflect.Value.Convert\<close>). Among the types of
  the input values, \<^verbatim>\<open>ConvertibleTo\<close> holds for the integer and the string kinds. An
  integer converts to the UTF-8 encoding of the code point it denotes, and to the
  encoding of the replacement character U+FFFD when it denotes none.
\<close>

definition byte :: "int \<Rightarrow> char" where
  "byte n = char_of (nat n)"

definition encode_rune :: "int \<Rightarrow> string" where
  "encode_rune r =
     (if r < 0 \<or> 0x10FFFF < r \<or> (0xD800 \<le> r \<and> r \<le> 0xDFFF) then [byte 0xEF, byte 0xBF, byte 0xBD]
      else if r \<le> 0x7F then [byte r]
      else if r \<le> 0x7FF then [byte (0xC0 + r div 64), byte (0x80 + r mod 64)]
      else if r \<le> 0xFFFF then
        [byte (0xE0 + r div 4096), byte (0x80 + (r div 64) mod 64), byte (0x80 + r mod 64)]
      else
        [byte (0xF0 + r div 262144), byte (0x80 + (r div 4096) mod 64),
         byte (0x80 + (r div 64) mod 64), byte (0x80 + r mod 64)])"

fun convert_to_string :: "ivalue \<Rightarrow> string option" where
  "convert_to_string (VString s) = Some s"
| "convert_to_string (VInt i) = Some (encode_rune (sint i))"
| "convert_to_string (VInt32 i) = Some (encode_rune (sint i))"
| "convert_to_string (VDefined n v) = convert_to_string v"
| "convert_to_string _ = None"

text \<open>The string \<open>s\<close> as a value of the type \<open>typ\<close> of kind string.\<close>

fun string_as :: "gotype \<Rightarrow> string \<Rightarrow> ivalue" where
  "string_as (TDefined n u) s = VDefined n (string_as u s)"
| "string_as _ s = VString s"

definition ConvertibleTo_string :: "gotype \<Rightarrow> bool" where
  "ConvertibleTo_string t = (kind t = KInt \<or> kind t = KInt32 \<or> kind t = KString)"

text \<open>\<^verbatim>\<open>unmarshalInput\<close>, branch by branch.\<close>

definition incompatible :: "ivalue \<Rightarrow> error + ivalue" where
  "incompatible input = Inl (IncompatibleType (typeof input))"

definition unmarshalInput :: "gotype \<Rightarrow> ivalue \<Rightarrow> error + ivalue" where
  "unmarshalInput typ input =
     (if typeof input = Some typ then Inr input
      else case kind typ of
        KInt32 \<Rightarrow>
          (case input of
             VInt i \<Rightarrow>
               if sint i < MinInt32 \<or> MaxInt32 < sint i then Inl (Error ''not a 32-bit integer'')
               else Inr (VInt32 (scast i))
           | VFloat64 f \<Rightarrow>
               (let coerced = int32_of_float64 f in
                if f64_less f (Finite (of_int MinInt32)) \<or> f64_less (Finite (of_int MaxInt32)) f
                   \<or> f64_neq (Finite (of_int (sint coerced))) f
                then Inl (Error ''not a 32-bit integer'')
                else Inr (VInt32 coerced))
           | _ \<Rightarrow> incompatible input)
      | KFloat64 \<Rightarrow>
          (case input of
             VInt32 i \<Rightarrow> Inr (VFloat64 (Finite (of_int (sint i))))
           | VInt i \<Rightarrow> Inr (VFloat64 (float64_of_int (sint i)))
           | _ \<Rightarrow> incompatible input)
      | KString \<Rightarrow>
          (case typeof input of
             None \<Rightarrow> Inl (Panic ''invalid memory address or nil pointer dereference'')
           | Some t \<Rightarrow>
               if ConvertibleTo_string t
               then (case convert_to_string input of
                       Some s \<Rightarrow> Inr (string_as typ s)
                     | None \<Rightarrow> incompatible input)
               else incompatible input)
      | _ \<Rightarrow> incompatible input)"

section \<open>Packed values\<close>

text \<open>
  A \<^verbatim>\<open>reflect.Value\<close> produced by a packer: \<open>ValueOf v\<close> is \<^verbatim>\<open>reflect.ValueOf(v)\<close>,
  \<open>RZero t\<close> is \<^verbatim>\<open>reflect.Zero(t)\<close> (the nil pointer when \<open>t\<close> is a pointer type),
  \<open>RPtr t x\<close> is a pointer obtained from \<^verbatim>\<open>reflect.New(t)\<close> whose target holds \<open>x\<close>,
  \<open>RSlice t xs\<close> a slice of type \<open>t\<close>, and \<open>RStruct t fs\<close> a struct of type \<open>t\<close> in
  which the fields listed in \<open>fs\<close> (by index) have been set and all others are zero.
\<close>

datatype rvalue =
    ValueOf ivalue
  | RZero gotype
  | RPtr gotype rvalue
  | RSlice gotype "rvalue list"
  | RStruct gotype "(nat \<times> rvalue) list"

fun rtype :: "rvalue \<Rightarrow> gotype option" where
  "rtype (ValueOf v) = typeof v"
| "rtype (RZero t) = Some t"
| "rtype (RPtr t x) = Some (TPtr t)"
| "rtype (RSlice t xs) = Some t"
| "rtype (RStruct t fs) = Some t"

text \<open>
  \<^verbatim>\<open>reflect.Value.Set\<close> panics unless the value is assignable to the type of the slot:
  the types are identical, or the slot is \<^verbatim>\<open>interface{}\<close>, or the underlying types are
  identical and one of the two types is not a named type.
\<close>

fun underlying :: "gotype \<Rightarrow> gotype" where
  "underlying (TDefined n u) = u"
| "underlying t = t"

fun is_named :: "gotype \<Rightarrow> bool" where
  "is_named (TPtr t) = False"
| "is_named (TSlice t) = False"
| "is_named TAny = False"
| "is_named TMapAny = False"
| "is_named _ = True"

definition AssignableTo :: "gotype \<Rightarrow> gotype \<Rightarrow> bool" where
  "AssignableTo v t =
     (v = t \<or> t = TAny \<or> (underlying v = underlying t \<and> (\<not> is_named v \<or> \<not> is_named t)))"

definition can_Set :: "gotype \<Rightarrow> rvalue \<Rightarrow> bool" where
  "can_Set slot x = (case rtype x of None \<Rightarrow> False | Some vt \<Rightarrow> AssignableTo vt slot)"

section \<open>The environment: struct types, unmarshalers, input objects\<close>

datatype astnode = Parsed nat | Allocated nat

text \<open>
  \<^verbatim>\<open>ast.Type\<close>. The map of the builder compares these by interface equality, that is by
  pointer. A named type is one object per name; every \<^verbatim>\<open>*ast.List\<close> and
  \<^verbatim>\<open>*ast.NonNull\<close> is an object of its own, so the wrappers carry the identity of their
  node: \<open>Parsed i\<close> for a node of the parsed schema, \<open>Allocated i\<close> for the \<open>i\<close>-th node
  allocated by the builder.
\<close>

datatype asttype =
    ScalarTypeDefinition string
  | EnumTypeDefinition string
  | InputObject string
  | ObjectTypeDefinition string
  | InterfaceTypeDefinition string
  | UnionType string
  | ListType astnode asttype
  | NonNullType astnode asttype

text \<open>\<^verbatim>\<open>ast.Type.String\<close>, in GraphQL notation (the \<^verbatim>\<open>ast\<close> package is not part of the sources).\<close>

fun type_string :: "asttype \<Rightarrow> string" where
  "type_string (ScalarTypeDefinition n) = n"
| "type_string (EnumTypeDefinition n) = n"
| "type_string (InputObject n) = n"
| "type_string (ObjectTypeDefinition n) = n"
| "type_string (InterfaceTypeDefinition n) = n"
| "type_string (UnionType n) = n"
| "type_string (ListType i t) = ''['' @ type_string t @ '']''"
| "type_string (NonNullType i t) = type_string t @ ''!''"

text \<open>
  \<^verbatim>\<open>ast.InputValueDefinition\<close>: the name, the type and the default value of an argument or
  of an input object field. The default is kept as the value its \<^verbatim>\<open>Deserialize(nil)\<close>
  returns; \<open>None\<close> is the nil \<^verbatim>\<open>ast.Value\<close>.
\<close>

record InputValueDefinition =
  Name :: string
  Type :: asttype
  Default :: "ivalue option"

text \<open>\<^verbatim>\<open>reflect.StructField\<close>; the index of a field is its position in the struct.\<close>

record StructField =
  sfName :: string
  sfPkgPath :: string
  sfType :: gotype

text \<open>
  What a Go type provides when a pointer to it implements \<^verbatim>\<open>decode.Unmarshaler\<close>:
  the two methods (\<open>UnmarshalGraphQL\<close> as the function from the input to the error or to
  the value the receiver holds afterwards) and whether it also has the \<^verbatim>\<open>Nullable\<close>
  method of \<^verbatim>\<open>NullUnmarshaller\<close>.
\<close>

record Unmarshaler =
  ImplementsGraphQLType :: "string \<Rightarrow> bool"
  UnmarshalGraphQL :: "ivalue \<Rightarrow> error + rvalue"
  Nullable :: bool

record env =
  StructFields :: "string \<Rightarrow> StructField list"
  Unmarshalers :: "gotype \<Rightarrow> Unmarshaler option"
  Values :: "string \<Rightarrow> InputValueDefinition list"

definition isNullable :: "env \<Rightarrow> gotype \<Rightarrow> bool" where
  "isNullable E t = (case Unmarshalers E t of None \<Rightarrow> False | Some u \<Rightarrow> Nullable u)"

fun fields_of :: "env \<Rightarrow> gotype \<Rightarrow> StructField list" where
  "fields_of E (TStruct n) = StructFields E n"
| "fields_of E (TDefined n u) = fields_of E u"
| "fields_of E _ = []"

section \<open>Packers and the objects of the builder\<close>

text \<open>
  A \<^verbatim>\<open>packer\<close> interface value. Value, unmarshaler and null packers are immutable and
  are kept by value. A list packer and a struct packer are objects whose fields are
  written after their creation (\<^verbatim>\<open>elem\<close>, \<^verbatim>\<open>defaultStruct\<close>, the \<^verbatim>\<open>packer\<close> of a
  field) and which are shared, also cyclically: they live in the store of the builder and
  a packer value refers to them by address.
\<close>

datatype packer =
    NilPacker
  | ValuePacker gotype
  | unmarshalerPacker gotype
  | nullPacker packer gotype bool
  | ListPackerAt nat
  | StructPackerAt nat

record listPacker =
  sliceType :: gotype
  elem :: packer

record structPackerField =
  fname :: string
  findex :: nat
  fdef :: "ivalue option"
  fpacker :: packer

record StructPacker =
  structType :: gotype
  usePtr :: bool
  defaultStruct :: "rvalue option"
  fieldRefs :: "nat list"

text \<open>A \<^verbatim>\<open>*packer\<close>: the \<^verbatim>\<open>elem\<close> of a list packer or the \<^verbatim>\<open>packer\<close> of a field.\<close>

datatype target = ElemOf nat | PackerOf nat

record packerMapEntry =
  packer :: packer
  targets :: "target list"

text \<open>
  The builder: its map (in insertion order; the keys are distinct) and its struct
  packers, which are at the same time the store of all struct packers (address = position),
  and the store of the list packers and of the struct packer fields created so far,
  with the number of \<^verbatim>\<open>ast.NonNull\<close> nodes allocated.
\<close>

record Builder =
  packerMap :: "((asttype \<times> gotype) \<times> packerMapEntry) list"
  structPackers :: "StructPacker list"
  listPackers :: "listPacker list"
  fieldObjs :: "structPackerField list"
  allocated :: nat

definition NewBuilder :: Builder where
  "NewBuilder = \<lparr>packerMap = [], structPackers = [], listPackers = [], fieldObjs = [],
     allocated = 0\<rparr>"

section \<open>Packing\<close>

definition ValuePacker_Pack :: "gotype \<Rightarrow> ivalue \<Rightarrow> error + rvalue" where
  "ValuePacker_Pack ValueType v =
     (if v = VNil then Inl (Error ''got null for non-null'')
      else case unmarshalInput ValueType v of
        Inl (Panic s) \<Rightarrow> Inl (Panic s)
      | Inl err \<Rightarrow> Inl (CouldNotUnmarshal v ValueType err)
      | Inr coerced \<Rightarrow> Inr (ValueOf coerced))"

definition unmarshalerPacker_Pack :: "env \<Rightarrow> gotype \<Rightarrow> ivalue \<Rightarrow> error + rvalue" where
  "unmarshalerPacker_Pack E ValueType v =
     (if v = VNil \<and> \<not> isNullable E ValueType then Inl (Error ''got null for non-null'')
      else case Unmarshalers E ValueType of
        None \<Rightarrow> Inl (Panic ''interface conversion'')
      | Some u \<Rightarrow> UnmarshalGraphQL u v)"

text \<open>\<^verbatim>\<open>v.Elem().FieldByIndex(index).Set(packed)\<close> on the struct \<open>s\<close> of type \<open>st\<close>.\<close>

definition set_field :: "env \<Rightarrow> gotype \<Rightarrow> nat \<Rightarrow> rvalue \<Rightarrow> rvalue \<Rightarrow> error + rvalue" where
  "set_field E st i packed s =
     (case s of
        RStruct t fs \<Rightarrow>
          if i < length (fields_of E st) \<and> can_Set (sfType (fields_of E st ! i)) packed
          then Inr (RStruct t (AList.update i packed fs))
          else Inl (Panic ''reflect.Set'')
      | _ \<Rightarrow> Inl (Panic ''reflect.Set''))"

text \<open>
  The \<^verbatim>\<open>Pack\<close> methods. The packers of a recursive input type form a cycle in the store,
  so the recursion is bounded by fuel, spent where a list packer or a struct packer hands
  the input to the packers it refers to; \<open>None\<close> is "out of fuel".
\<close>

function Pack :: "env \<Rightarrow> Builder \<Rightarrow> nat \<Rightarrow> packer \<Rightarrow> ivalue \<Rightarrow> (error + rvalue) option"
and packFields :: "env \<Rightarrow> Builder \<Rightarrow> nat \<Rightarrow> gotype \<Rightarrow> nat list \<Rightarrow> (string \<times> ivalue) list
    \<Rightarrow> rvalue \<Rightarrow> (error + rvalue) option"
and packElems :: "env \<Rightarrow> Builder \<Rightarrow> nat \<Rightarrow> gotype \<Rightarrow> packer \<Rightarrow> ivalue list
    \<Rightarrow> (error + rvalue list) option"
where
  "Pack E b n NilPacker v = Some (Inl (Panic ''invalid memory address or nil pointer dereference''))"
| "Pack E b n (ValuePacker t) v = Some (ValuePacker_Pack t v)"
| "Pack E b n (unmarshalerPacker t) v = Some (unmarshalerPacker_Pack E t v)"
| "Pack E b n (nullPacker elemPacker valueType addPtr) v =
     (if v = VNil \<and> \<not> isNullable E valueType then Some (Inr (RZero valueType))
      else case Pack E b n elemPacker v of
        None \<Rightarrow> None
      | Some (Inl err) \<Rightarrow> Some (Inl err)
      | Some (Inr x) \<Rightarrow>
          if addPtr then
            (case Elem valueType of
               None \<Rightarrow> Some (Inl (Panic ''reflect: Elem of invalid type''))
             | Some t \<Rightarrow>
                 if can_Set t x then Some (Inr (RPtr t x)) else Some (Inl (Panic ''reflect.Set'')))
          else Some (Inr x))"
| "Pack E b n (ListPackerAt a) v =
     (if \<not> a < length (listPackers b) then Some (Inl (Panic ''no such object''))
      else
        let e = listPackers b ! a;
            list = (case v of VList xs \<Rightarrow> xs | _ \<Rightarrow> [v])
        in if kind (sliceType e) \<noteq> KSlice then Some (Inl (Panic ''reflect.MakeSlice of non-slice type''))
           else case Elem (sliceType e) of
             None \<Rightarrow> Some (Inl (Panic ''reflect: Elem of invalid type''))
           | Some t \<Rightarrow>
               (case n of
                  0 \<Rightarrow> None
                | Suc m \<Rightarrow>
                    (case packElems E b m t (elem e) list of
                       None \<Rightarrow> None
                     | Some (Inl err) \<Rightarrow> Some (Inl err)
                     | Some (Inr xs) \<Rightarrow> Some (Inr (RSlice (sliceType e) xs)))))"
| "Pack E b n (StructPackerAt i) v =
     (if \<not> i < length (structPackers b) then Some (Inl (Panic ''no such object''))
      else if v = VNil then Some (Inl (Error ''got null for non-null''))
      else
        let p = structPackers b ! i in
        case v of
          VMap values \<Rightarrow>
            (case defaultStruct p of
               None \<Rightarrow> Some (Inl (Panic ''reflect: call of reflect.Value.Set on zero Value''))
             | Some d \<Rightarrow>
                 if \<not> can_Set (structType p) d then Some (Inl (Panic ''reflect.Set''))
                 else
                   (case n of
                      0 \<Rightarrow> None
                    | Suc m \<Rightarrow>
                        (case packFields E b m (structType p) (fieldRefs p) values d of
                           None \<Rightarrow> None
                         | Some (Inl err) \<Rightarrow> Some (Inl err)
                         | Some (Inr s) \<Rightarrow>
                             Some (Inr (if usePtr p then RPtr (structType p) s else s)))))
        | _ \<Rightarrow> Some (Inl (Panic ''interface conversion'')))"
| "packFields E b n st [] values s = Some (Inr s)"
| "packFields E b n st (a # as) values s =
     (if \<not> a < length (fieldObjs b) then Some (Inl (Panic ''no such object''))
      else
        let f = fieldObjs b ! a in
        case map_of values (fname f) of
          None \<Rightarrow> packFields E b n st as values s
        | Some v \<Rightarrow>
            (case Pack E b n (fpacker f) v of
               None \<Rightarrow> None
             | Some (Inl err) \<Rightarrow> Some (Inl err)
             | Some (Inr packed) \<Rightarrow>
                 (case set_field E st (findex f) packed s of
                    Inl err \<Rightarrow> Some (Inl err)
                  | Inr s' \<Rightarrow> packFields E b n st as values s')))"
| "packElems E b n t p [] = Some (Inr [])"
| "packElems E b n t p (x # xs) =
     (case Pack E b n p x of
        None \<Rightarrow> None
      | Some (Inl err) \<Rightarrow> Some (Inl err)
      | Some (Inr packed) \<Rightarrow>
          if \<not> can_Set t packed then Some (Inl (Panic ''reflect.Set''))
          else
            (case packElems E b n t p xs of
               None \<Rightarrow> None
             | Some (Inl err) \<Rightarrow> Some (Inl err)
             | Some (Inr rest) \<Rightarrow> Some (Inr (packed # rest))))"
  by pat_completeness auto
termination
  by (relation "inv_image (less_than <*lex*> less_than <*lex*> less_than)
        (\<lambda>x. case x of
            Inl (E, b, n, p, v) \<Rightarrow> (n, 0::nat, size p)
          | Inr (Inl (E, b, n, st, as, values, s)) \<Rightarrow> (n, 1, length as)
          | Inr (Inr (E, b, n, t, p, xs)) \<Rightarrow> (n, 1, length xs))") auto

section \<open>Building the packers\<close>

fun unwrapNonNull :: "asttype \<Rightarrow> asttype \<times> bool" where
  "unwrapNonNull (NonNullType i t) = (t, True)"
| "unwrapNonNull t = (t, False)"

definition stripUnderscore :: "string \<Rightarrow> string" where
  "stripUnderscore s = filter (\<lambda>c. c \<noteq> CHR ''_'') s"

text \<open>
  \<^verbatim>\<open>strings.EqualFold\<close> on identifiers of ASCII letters, digits and underscores, which is
  what GraphQL names are: equality up to the case of the letters.
\<close>

definition lower :: "char \<Rightarrow> char" where
  "lower c = (let n = (of_char c :: nat) in if 65 \<le> n \<and> n \<le> 90 then char_of (n + 32) else c)"

definition EqualFold :: "string \<Rightarrow> string \<Rightarrow> bool" where
  "EqualFold s t = (map lower s = map lower t)"

text \<open>
  \<^verbatim>\<open>reflect.Type.FieldByNameFunc\<close> on a struct without embedded structs: the field that
  satisfies the match function if there is exactly one; several matching fields cancel
  each other.
\<close>

definition FieldByNameFunc :: "env \<Rightarrow> gotype \<Rightarrow> (string \<Rightarrow> bool) \<Rightarrow> (nat \<times> StructField) option" where
  "FieldByNameFunc E st match =
     (case filter (\<lambda>(i, sf). match (sfName sf)) (enumerate 0 (fields_of E st)) of
        [x] \<Rightarrow> Some x
      | _ \<Rightarrow> None)"

text \<open>
  The map of the builder is an association list with distinct keys, in the order of
  insertion: \<^verbatim>\<open>b.packerMap[k] = ref\<close> for a key that is not there appends the entry,
  and an assignment through \<^verbatim>\<open>ref\<close> changes the entry of its key.
\<close>

definition reserve :: "asttype \<times> gotype \<Rightarrow> Builder \<Rightarrow> Builder" where
  "reserve k b =
     b\<lparr>packerMap := AList.update k \<lparr>packer = NilPacker, targets = []\<rparr> (packerMap b)\<rparr>"

definition update_entry :: "asttype \<times> gotype \<Rightarrow> (packerMapEntry \<Rightarrow> packerMapEntry) \<Rightarrow> Builder \<Rightarrow> Builder" where
  "update_entry k f b = b\<lparr>packerMap := AList.map_entry k f (packerMap b)\<rparr>"

definition add_target :: "target \<Rightarrow> packerMapEntry \<Rightarrow> packerMapEntry" where
  "add_target target ref = ref\<lparr>targets := targets ref @ [target]\<rparr>"

definition new_listPacker :: "gotype \<Rightarrow> Builder \<Rightarrow> Builder" where
  "new_listPacker reflectType b =
     b\<lparr>listPackers := listPackers b @ [\<lparr>sliceType = reflectType, elem = NilPacker\<rparr>]\<rparr>"

definition new_field :: "InputValueDefinition \<Rightarrow> nat \<Rightarrow> Builder \<Rightarrow> Builder" where
  "new_field v idx b =
     b\<lparr>fieldObjs := fieldObjs b @
        [\<lparr>fname = Name v, findex = idx, fdef = Default v, fpacker = NilPacker\<rparr>]\<rparr>"

text \<open>
  The type a field's packer is requested for: with a default value, a freshly allocated
  \<^verbatim>\<open>&ast.NonNull{OfType: ft}\<close> around the unwrapped type.
\<close>

definition field_type :: "InputValueDefinition \<Rightarrow> Builder \<Rightarrow> asttype \<times> Builder" where
  "field_type v b =
     (if Default v \<noteq> None
      then (NonNullType (Allocated (allocated b)) (fst (unwrapNonNull (Type v))),
            b\<lparr>allocated := Suc (allocated b)\<rparr>)
      else (Type v, b))"

definition field_error :: "string \<Rightarrow> error \<Rightarrow> error" where
  "field_error n err = (case err of Panic s \<Rightarrow> Panic s | _ \<Rightarrow> FieldError n err)"

definition new_StructPacker :: "gotype \<Rightarrow> bool \<Rightarrow> nat list \<Rightarrow> Builder \<Rightarrow> Builder" where
  "new_StructPacker st up fs b =
     b\<lparr>structPackers := structPackers b @
        [\<lparr>structType = st, usePtr = up, defaultStruct = None, fieldRefs = fs\<rparr>]\<rparr>"

text \<open>
  The five mutually recursive functions of the builder; \<open>makeFields\<close> is the loop of
  \<^verbatim>\<open>MakeStructPacker\<close>. The recursion follows the schema, which is cyclic for a recursive
  input type, and need not end: fuel is spent where \<^verbatim>\<open>assignPacker\<close> builds the packer of
  a pair it has not seen, and \<open>None\<close> is "out of fuel". An error ends the build, and the
  builder is not used afterwards.
\<close>

function assignPacker :: "env \<Rightarrow> nat \<Rightarrow> Builder \<Rightarrow> target \<Rightarrow> asttype \<Rightarrow> gotype
    \<Rightarrow> (error + Builder) option"
and makePacker :: "env \<Rightarrow> nat \<Rightarrow> Builder \<Rightarrow> asttype \<Rightarrow> gotype
    \<Rightarrow> (error + packer \<times> Builder) option"
and makeNonNullPacker :: "env \<Rightarrow> nat \<Rightarrow> Builder \<Rightarrow> asttype \<Rightarrow> gotype
    \<Rightarrow> (error + packer \<times> Builder) option"
and MakeStructPacker :: "env \<Rightarrow> nat \<Rightarrow> Builder \<Rightarrow> InputValueDefinition list \<Rightarrow> gotype
    \<Rightarrow> (error + nat \<times> Builder) option"
and makeFields :: "env \<Rightarrow> nat \<Rightarrow> Builder \<Rightarrow> gotype \<Rightarrow> gotype \<Rightarrow> InputValueDefinition list
    \<Rightarrow> nat list \<Rightarrow> (error + nat list \<times> Builder) option"
where
  "assignPacker E n b target schemaType reflectType =
     (let k = (schemaType, reflectType) in
      case map_of (packerMap b) k of
        Some ref \<Rightarrow> Some (Inr (update_entry k (add_target target) b))
      | None \<Rightarrow>
          (case n of
             0 \<Rightarrow> None
           | Suc m \<Rightarrow>
               (case makePacker E m (reserve k b) schemaType reflectType of
                  None \<Rightarrow> None
                | Some (Inl err) \<Rightarrow> Some (Inl err)
                | Some (Inr (p, b')) \<Rightarrow>
                    Some (Inr (update_entry k (add_target target)
                                 (update_entry k (\<lambda>ref. ref\<lparr>packer := p\<rparr>) b'))))))"
| "makePacker E n b schemaType reflectType =
     (case unwrapNonNull schemaType of
        (t, nonNull) \<Rightarrow>
          if \<not> nonNull then
            if kind reflectType = KPtr then
              (case Elem reflectType of
                 None \<Rightarrow> Some (Inl (Panic ''reflect: Elem of invalid type''))
               | Some et \<Rightarrow>
                   (case makeNonNullPacker E n b t
                           (case t of InputObject x \<Rightarrow> reflectType | _ \<Rightarrow> et) of
                      None \<Rightarrow> None
                    | Some (Inl err) \<Rightarrow> Some (Inl err)
                    | Some (Inr (el, b')) \<Rightarrow>
                        Some (Inr (nullPacker el reflectType
                                     (case t of InputObject x \<Rightarrow> False | _ \<Rightarrow> True), b'))))
            else if isNullable E reflectType then
              (case makeNonNullPacker E n b t reflectType of
                 None \<Rightarrow> None
               | Some (Inl err) \<Rightarrow> Some (Inl err)
               | Some (Inr (el, b')) \<Rightarrow> Some (Inr (nullPacker el reflectType False, b')))
            else Some (Inl (NotPointerOrNullable reflectType))
          else makeNonNullPacker E n b t reflectType)"
| "makeNonNullPacker E n b schemaType reflectType =
     (case Unmarshalers E reflectType of
        Some u \<Rightarrow>
          if \<not> ImplementsGraphQLType u (type_string schemaType)
          then Some (Inl (CanNotUnmarshal (type_string schemaType) reflectType))
          else Some (Inr (unmarshalerPacker reflectType, b))
      | None \<Rightarrow>
          (case schemaType of
             ScalarTypeDefinition x \<Rightarrow> Some (Inr (ValuePacker reflectType, b))
           | EnumTypeDefinition x \<Rightarrow>
               if kind reflectType \<noteq> KString then Some (Inl (Error ''wrong type, expected string''))
               else Some (Inr (ValuePacker reflectType, b))
           | InputObject x \<Rightarrow>
               (case MakeStructPacker E n b (Values E x) reflectType of
                  None \<Rightarrow> None
                | Some (Inl err) \<Rightarrow> Some (Inl err)
                | Some (Inr (i, b')) \<Rightarrow> Some (Inr (StructPackerAt i, b')))
           | ListType x ofType \<Rightarrow>
               if kind reflectType \<noteq> KSlice then Some (Inl (ExpectedSlice reflectType))
               else
                 (case Elem reflectType of
                    None \<Rightarrow> Some (Inl (Panic ''reflect: Elem of invalid type''))
                  | Some et \<Rightarrow>
                      (case assignPacker E n (new_listPacker reflectType b)
                              (ElemOf (length (listPackers b))) ofType et of
                         None \<Rightarrow> None
                       | Some (Inl err) \<Rightarrow> Some (Inl err)
                       | Some (Inr b') \<Rightarrow> Some (Inr (ListPackerAt (length (listPackers b)), b'))))
           | ObjectTypeDefinition x \<Rightarrow> Some (Inl (NotAnInputKind ''OBJECT''))
           | InterfaceTypeDefinition x \<Rightarrow> Some (Inl (NotAnInputKind ''INTERFACE''))
           | UnionType x \<Rightarrow> Some (Inl (NotAnInputKind ''UNION''))
           | NonNullType x t \<Rightarrow> Some (Inl (Panic ''unreachable''))))"
| "MakeStructPacker E n b values typ =
     (if kind typ = KPtr \<and> Elem typ = None then Some (Inl (Panic ''reflect: Elem of invalid type''))
      else
        let st = (if kind typ = KPtr then the (Elem typ) else typ) in
        if kind st \<noteq> KStruct then Some (Inl (ExpectedStruct typ))
        else
          (case makeFields E n b typ st values [] of
             None \<Rightarrow> None
           | Some (Inl err) \<Rightarrow> Some (Inl err)
           | Some (Inr (fs, b')) \<Rightarrow>
               Some (Inr (length (structPackers b'),
                          new_StructPacker st (kind typ = KPtr) fs b'))))"
| "makeFields E n b typ st [] fs = Some (Inr (fs, b))"
| "makeFields E n b typ st (v # vs) fs =
     (case FieldByNameFunc E st
             (\<lambda>nm. EqualFold (stripUnderscore nm) (stripUnderscore (Name v))) of
        None \<Rightarrow> Some (Inl (DoesNotDefineField typ (Name v)))
      | Some (idx, sf) \<Rightarrow>
          if sfPkgPath sf \<noteq> [] then Some (Inl (MustBeExported (sfName sf)))
          else if snd (unwrapNonNull (Type v)) \<and> kind (sfType sf) = KPtr
          then Some (Inl (MustBeNonPointer (sfName sf)))
          else
            (case field_type v (new_field v idx b) of
               (ft, b1) \<Rightarrow>
                 (case assignPacker E n b1 (PackerOf (length (fieldObjs b))) ft (sfType sf) of
                    None \<Rightarrow> None
                  | Some (Inl err) \<Rightarrow> Some (Inl (field_error (sfName sf) err))
                  | Some (Inr b2) \<Rightarrow> makeFields E n b2 typ st vs (fs @ [length (fieldObjs b)]))))"
  by pat_completeness auto
termination
  by (relation "inv_image (less_than <*lex*> less_than <*lex*> less_than)
        (\<lambda>x. case x of
            Inl (Inl (E, n, b, target, t, rt)) \<Rightarrow> (n, 0::nat, 0::nat)
          | Inl (Inr (E, n, b, t, rt)) \<Rightarrow> (n, 4, 0)
          | Inr (Inl (E, n, b, t, rt)) \<Rightarrow> (n, 3, 0)
          | Inr (Inr (Inl (E, n, b, values, typ))) \<Rightarrow> (n, 2, 0)
          | Inr (Inr (Inr (E, n, b, typ, st, values, fs))) \<Rightarrow> (n, 1, length values))") auto

declare assignPacker.simps [simp del] makePacker.simps [simp del] makeNonNullPacker.simps [simp del]
  MakeStructPacker.simps [simp del] makeFields.simps [simp del]

section \<open>Finish\<close>

text \<open>\<^verbatim>\<open>*target = entry.packer\<close>\<close>

definition write_target :: "packer \<Rightarrow> target \<Rightarrow> Builder \<Rightarrow> Builder" where
  "write_target p t b =
     (case t of
        ElemOf a \<Rightarrow> b\<lparr>listPackers := (listPackers b)[a := (listPackers b ! a)\<lparr>elem := p\<rparr>]\<rparr>
      | PackerOf a \<Rightarrow> b\<lparr>fieldObjs := (fieldObjs b)[a := (fieldObjs b ! a)\<lparr>fpacker := p\<rparr>]\<rparr>)"

text \<open>
  The first loop of \<^verbatim>\<open>Finish\<close>. Go ranges over the map in no fixed order; every target
  is recorded in one entry only, so the order does not matter, and the model takes the
  order of insertion.
\<close>

definition assignTargets :: "Builder \<Rightarrow> Builder" where
  "assignTargets b =
     fold (\<lambda>(k, entry). fold (write_target (packer entry)) (targets entry)) (packerMap b) b"

definition set_defaultStruct :: "nat \<Rightarrow> rvalue \<Rightarrow> Builder \<Rightarrow> Builder" where
  "set_defaultStruct i d b =
     b\<lparr>structPackers := (structPackers b)[i := (structPackers b ! i)\<lparr>defaultStruct := Some d\<rparr>]\<rparr>"

text \<open>The inner loop of the second loop: the fields of the struct packer at \<open>i\<close>.\<close>

fun setDefaults :: "env \<Rightarrow> nat \<Rightarrow> nat \<Rightarrow> nat list \<Rightarrow> Builder \<Rightarrow> (error + Builder) option" where
  "setDefaults E fuel i [] b = Some (Inr b)"
| "setDefaults E fuel i (a # as) b =
     (if \<not> a < length (fieldObjs b) then Some (Inl (Panic ''no such object''))
      else
        case fdef (fieldObjs b ! a) of
          None \<Rightarrow> setDefaults E fuel i as b
        | Some defaultVal \<Rightarrow>
            (case Pack E b fuel (fpacker (fieldObjs b ! a)) defaultVal of
               None \<Rightarrow> None
             | Some (Inl err) \<Rightarrow> Some (Inl err)
             | Some (Inr v) \<Rightarrow>
                 (case defaultStruct (structPackers b ! i) of
                    None \<Rightarrow> Some (Inl (Panic ''reflect: call of reflect.Value.Set on zero Value''))
                  | Some d \<Rightarrow>
                      (case set_field E (structType (structPackers b ! i))
                              (findex (fieldObjs b ! a)) v d of
                         Inl err \<Rightarrow> Some (Inl err)
                       | Inr d' \<Rightarrow> setDefaults E fuel i as (set_defaultStruct i d' b)))))"

fun finishStructs :: "env \<Rightarrow> nat \<Rightarrow> nat list \<Rightarrow> Builder \<Rightarrow> (error + Builder) option" where
  "finishStructs E fuel [] b = Some (Inr b)"
| "finishStructs E fuel (i # is) b =
     (case setDefaults E fuel i (fieldRefs (structPackers b ! i))
             (set_defaultStruct i (RStruct (structType (structPackers b ! i)) []) b) of
        None \<Rightarrow> None
      | Some (Inl err) \<Rightarrow> Some (Inl err)
      | Some (Inr b') \<Rightarrow> finishStructs E fuel is b')"

text \<open>\<open>fuel\<close> bounds each \<^verbatim>\<open>Pack\<close> of a default value.\<close>

definition Finish :: "env \<Rightarrow> nat \<Rightarrow> Builder \<Rightarrow> (error + Builder) option" where
  "Finish E fuel b =
     finishStructs E fuel [0..<length (structPackers b)] (assignTargets b)"

section \<open>Invariants of the builder\<close>

definition entry_of :: "Builder \<Rightarrow> asttype \<times> gotype \<Rightarrow> packerMapEntry option" where
  "entry_of b k = map_of (packerMap b) k"

definition owns :: "Builder \<Rightarrow> asttype \<times> gotype \<Rightarrow> target \<Rightarrow> bool" where
  "owns b k tg = (\<exists>e. entry_of b k = Some e \<and> tg \<in> set (targets e))"

definition grows :: "Builder \<Rightarrow> Builder \<Rightarrow> bool" where
  "grows b b' = ((\<forall>k. entry_of b k \<noteq> None \<longrightarrow> entry_of b' k \<noteq> None)
     \<and> (\<forall>k tg. owns b k tg \<longrightarrow> owns b' k tg)
     \<and> prefix (fieldObjs b) (fieldObjs b') \<and> prefix (listPackers b) (listPackers b')
     \<and> prefix (structPackers b) (structPackers b'))"

definition unfinished :: "Builder \<Rightarrow> bool" where
  "unfinished b = ((\<forall>p \<in> set (structPackers b). defaultStruct p = None)
     \<and> (\<forall>l \<in> set (listPackers b). elem l = NilPacker)
     \<and> (\<forall>f \<in> set (fieldObjs b). fpacker f = NilPacker))"

definition keys_ok :: "env \<Rightarrow> Builder \<Rightarrow> bool" where
  "keys_ok E b = (\<forall>t rt. entry_of b (t, rt) \<noteq> None \<longrightarrow>
       snd (unwrapNonNull t) \<or> kind rt = KPtr \<or> isNullable E rt)"

definition matching_field :: "env \<Rightarrow> gotype \<Rightarrow> InputValueDefinition \<Rightarrow> (nat \<times> StructField) option" where
  "matching_field E st v =
     FieldByNameFunc E st (\<lambda>nm. EqualFold (stripUnderscore nm) (stripUnderscore (Name v)))"


inductive reachable :: "env \<Rightarrow> Builder \<Rightarrow> bool" for E where
  new: "reachable E NewBuilder"
| make: "reachable E b \<Longrightarrow> MakeStructPacker E n b vs ty = Some (Inr (i, b')) \<Longrightarrow> reachable E b'"


fun valid_target :: "Builder \<Rightarrow> target \<Rightarrow> bool" where
  "valid_target b (ElemOf a) = (a < length (listPackers b))"
| "valid_target b (PackerOf a) = (a < length (fieldObjs b))"

fun read_target :: "Builder \<Rightarrow> target \<Rightarrow> packer" where
  "read_target b (ElemOf a) = elem (listPackers b ! a)"
| "read_target b (PackerOf a) = fpacker (fieldObjs b ! a)"

definition wf_targets :: "Builder \<Rightarrow> bool" where
  "wf_targets b = ((\<forall>k1 k2 tg. owns b k1 tg \<and> owns b k2 tg \<longrightarrow> k1 = k2)
     \<and> (\<forall>k tg. owns b k tg \<longrightarrow> valid_target b tg)
     \<and> distinct (map fst (packerMap b)))"

definition registered :: "Builder \<Rightarrow> bool" where
  "registered b = (\<forall>p \<in> set (structPackers b). \<forall>a \<in> set (fieldRefs p). \<exists>k. owns b k (PackerOf a))"

definition only_new :: "Builder \<Rightarrow> Builder \<Rightarrow> bool" where
  "only_new b b' = (\<forall>k x. owns b' k x \<longrightarrow> owns b k x \<or> \<not> valid_target b x)"

definition sound :: "Builder \<Rightarrow> bool" where
  "sound b = (wf_targets b \<and> registered b)"

definition P_assign :: "Builder \<Rightarrow> target \<Rightarrow> asttype \<times> gotype \<Rightarrow> Builder \<Rightarrow> bool" where
  "P_assign b tg k b' =
     (sound b \<and> valid_target b tg \<and> (\<forall>k'. \<not> owns b k' tg) \<longrightarrow>
        sound b' \<and> owns b' k tg
        \<and> (\<forall>k' x. owns b' k' x \<longrightarrow> owns b k' x \<or> (k' = k \<and> x = tg) \<or> \<not> valid_target b x))"

definition P_make :: "Builder \<Rightarrow> Builder \<Rightarrow> bool" where
  "P_make b b' = (sound b \<longrightarrow> sound b' \<and> only_new b b')"

definition P_fields :: "Builder \<Rightarrow> nat list \<Rightarrow> nat list \<Rightarrow> Builder \<Rightarrow> bool" where
  "P_fields b fs fs' b' =
     (sound b \<longrightarrow> sound b' \<and> only_new b b'
        \<and> (\<exists>new. fs' = fs @ new \<and> (\<forall>a \<in> set new. \<exists>k. owns b' k (PackerOf a))))"

fun non_null_packer :: "packer \<Rightarrow> bool" where
  "non_null_packer (ValuePacker t) = True"
| "non_null_packer (unmarshalerPacker t) = True"
| "non_null_packer (ListPackerAt a) = True"
| "non_null_packer (StructPackerAt i) = True"
| "non_null_packer _ = False"

fun closed :: "Builder \<Rightarrow> packer \<Rightarrow> bool" where
  "closed b NilPacker = False"
| "closed b (ValuePacker t) = True"
| "closed b (unmarshalerPacker t) = True"
| "closed b (nullPacker el t addPtr) = (non_null_packer el \<and> closed b el)"
| "closed b (ListPackerAt a) = (a < length (listPackers b))"
| "closed b (StructPackerAt i) = (i < length (structPackers b))"

definition entry_ok :: "Builder \<Rightarrow> asttype \<times> gotype \<Rightarrow> packerMapEntry \<Rightarrow> bool" where
  "entry_ok b k e = (closed b (packer e)
     \<and> (snd (unwrapNonNull (fst k)) \<longrightarrow> non_null_packer (packer e)))"

definition pending :: "Builder \<Rightarrow> (asttype \<times> gotype) set" where
  "pending b = {k. \<exists>e. entry_of b k = Some e \<and> \<not> entry_ok b k e}"

definition default_targets :: "Builder \<Rightarrow> bool" where
  "default_targets b = (\<forall>k a. owns b k (PackerOf a) \<longrightarrow> a < length (fieldObjs b)
       \<and> (fdef (fieldObjs b ! a) \<noteq> None \<longrightarrow> snd (unwrapNonNull (fst k))))"

definition D_assign :: "Builder \<Rightarrow> target \<Rightarrow> asttype \<Rightarrow> Builder \<Rightarrow> bool" where
  "D_assign b tg t b' =
     (default_targets b
      \<and> (\<forall>a. tg = PackerOf a \<longrightarrow> a < length (fieldObjs b)
              \<and> (fdef (fieldObjs b ! a) \<noteq> None \<longrightarrow> snd (unwrapNonNull t)))
      \<longrightarrow> default_targets b')"

definition complete :: "Builder \<Rightarrow> bool" where
  "complete b = (sound b \<and> unfinished b \<and> pending b = {} \<and> default_targets b)"

definition writes :: "((asttype \<times> gotype) \<times> packerMapEntry) list \<Rightarrow> (target \<times> packer) list" where
  "writes m = concat (map (\<lambda>(k, e). map (\<lambda>tg. (tg, packer e)) (targets e)) m)"

definition same_objects :: "Builder \<Rightarrow> Builder \<Rightarrow> bool" where
  "same_objects b b' = (packerMap b' = packerMap b
     \<and> map sliceType (listPackers b') = map sliceType (listPackers b)
     \<and> map fname (fieldObjs b') = map fname (fieldObjs b)
     \<and> map findex (fieldObjs b') = map findex (fieldObjs b)
     \<and> map fdef (fieldObjs b') = map fdef (fieldObjs b)
     \<and> map structType (structPackers b') = map structType (structPackers b)
     \<and> map usePtr (structPackers b') = map usePtr (structPackers b)
     \<and> map fieldRefs (structPackers b') = map fieldRefs (structPackers b))"

definition same_packers :: "Builder \<Rightarrow> Builder \<Rightarrow> bool" where
  "same_packers b b' = (packerMap b' = packerMap b \<and> fieldObjs b' = fieldObjs b
     \<and> listPackers b' = listPackers b
     \<and> map structType (structPackers b') = map structType (structPackers b)
     \<and> map usePtr (structPackers b') = map usePtr (structPackers b)
     \<and> map fieldRefs (structPackers b') = map fieldRefs (structPackers b))"

section \<open>The callers of the builder, and the types of the tests\<close>

text \<open>
  A caller makes the struct packers it needs and then calls \<^verbatim>\<open>Finish\<close>, as
  \<^verbatim>\<open>newMeta\<close> does with the builder of the resolvable package. \<open>build\<close> is that
  sequence for one argument list on a new builder.
\<close>

definition build :: "env \<Rightarrow> nat \<Rightarrow> InputValueDefinition list \<Rightarrow> gotype \<Rightarrow> (error + nat \<times> Builder) option" where
  "build E fuel vs ty =
     (case MakeStructPacker E fuel NewBuilder vs ty of
        None \<Rightarrow> None
      | Some (Inl err) \<Rightarrow> Some (Inl err)
      | Some (Inr (i, b)) \<Rightarrow>
          (case Finish E fuel b of
             None \<Rightarrow> None
           | Some (Inl err) \<Rightarrow> Some (Inl err)
           | Some (Inr b') \<Rightarrow> Some (Inr (i, b'))))"

text \<open>
  The input types of \<^verbatim>\<open>TestInput\<close> and the argument structs of
  \<^verbatim>\<open>inputResolver\<close> in \<^verbatim>\<open>graphql_test.go\<close>, with argument structs more for
  \<^verbatim>\<open>Int\<close> arguments, for a list with a default value, for two arguments of which one has
  a default value, and for an argument of a nullable unmarshaler type. No type of
  \<open>testEnv\<close> implements \<^verbatim>\<open>decode.Unmarshaler\<close>.
\<close>

definition exported :: "string \<Rightarrow> gotype \<Rightarrow> StructField" where
  "exported n t = \<lparr>sfName = n, sfPkgPath = [], sfType = t\<rparr>"

definition testEnv :: env where
  "testEnv = \<lparr>
     StructFields = (\<lambda>n.
       if n = ''recursive'' then [exported ''Next'' (TPtr (TStruct ''recursive''))]
       else if n = ''struct { Value *recursive }''
         then [exported ''Value'' (TPtr (TStruct ''recursive''))]
       else if n = ''struct { V int32 }'' then [exported ''V'' TInt32]
       else if n = ''struct { Value []*struct { V int32 } }''
         then [exported ''Value'' (TSlice (TPtr (TStruct ''struct { V int32 }'')))]
       else if n = ''struct { Value int32 }'' then [exported ''Value'' TInt32]
       else if n = ''struct { Value *int32 }'' then [exported ''Value'' (TPtr TInt32)]
       else if n = ''struct { Value []*int32 }'' then [exported ''Value'' (TSlice (TPtr TInt32))]
       else if n = ''struct { First int32; After *string }''
         then [exported ''First'' TInt32, exported ''After'' (TPtr TString)]
       else if n = ''struct { Value NullInt }'' then [exported ''Value'' (TStruct ''NullInt'')]
       else []),
     Unmarshalers = (\<lambda>t. None),
     Values = (\<lambda>n.
       if n = ''RecursiveInput''
         then [\<lparr>Name = ''next'', Type = InputObject ''RecursiveInput'', Default = None\<rparr>]
       else if n = ''Input''
         then [\<lparr>Name = ''v'', Type = NonNullType (Parsed 0) (ScalarTypeDefinition ''Int''),
                 Default = None\<rparr>]
       else [])\<rparr>"

definition arg :: "asttype \<Rightarrow> ivalue option \<Rightarrow> InputValueDefinition" where
  "arg t d = \<lparr>Name = ''value'', Type = t, Default = d\<rparr>"




text \<open>
  The stores that \<open>build\<close> ends with for the three argument lists (lemma
  \<open>stores_built\<close>).
\<close>

definition recursiveStore :: Builder where
  "recursiveStore = \<lparr>packerMap =
          [((InputObject ''RecursiveInput'', TPtr (TStruct ''recursive'')),
            \<lparr>packer = nullPacker (StructPackerAt 0) (TPtr (TStruct ''recursive'')) False,
               targets = [PackerOf 1, PackerOf 0]\<rparr>)],
          structPackers =
            [\<lparr>structType = TStruct ''recursive'', usePtr = True,
                defaultStruct = Some (RStruct (TStruct ''recursive'') []),
                fieldRefs = [1]\<rparr>,
             \<lparr>structType = TStruct ''struct { Value *recursive }'', usePtr = False,
                defaultStruct = Some (RStruct (TStruct ''struct { Value *recursive }'') []),
                fieldRefs = [0]\<rparr>],
          listPackers = [],
          fieldObjs =
            [\<lparr>fname = ''value'', findex = 0, fdef = None,
                fpacker = nullPacker (StructPackerAt 0) (TPtr (TStruct ''recursive'')) False\<rparr>,
             \<lparr>fname = ''next'', findex = 0, fdef = None,
                fpacker = nullPacker (StructPackerAt 0) (TPtr (TStruct ''recursive'')) False\<rparr>],
          allocated = 0\<rparr>"

definition listStore :: Builder where
  "listStore = \<lparr>packerMap =
          [((NonNullType (Parsed 2) (ListType (Parsed 3)
               (NonNullType (Parsed 4) (InputObject ''Input''))),
             TSlice (TPtr (TStruct ''struct { V int32 }''))),
            \<lparr>packer = ListPackerAt 0, targets = [PackerOf 0]\<rparr>),
           ((NonNullType (Parsed 4) (InputObject ''Input''), TPtr (TStruct ''struct { V int32 }'')),
            \<lparr>packer = StructPackerAt 0, targets = [ElemOf 0]\<rparr>),
           ((NonNullType (Parsed 0) (ScalarTypeDefinition ''Int''), TInt32),
            \<lparr>packer = ValuePacker TInt32, targets = [PackerOf 1]\<rparr>)],
          structPackers =
            [\<lparr>structType = TStruct ''struct { V int32 }'', usePtr = True,
                defaultStruct = Some (RStruct (TStruct ''struct { V int32 }'') []),
                fieldRefs = [1]\<rparr>,
             \<lparr>structType = TStruct ''struct { Value []*struct { V int32 } }'', usePtr = False,
                defaultStruct =
                  Some (RStruct (TStruct ''struct { Value []*struct { V int32 } }'') []),
                fieldRefs = [0]\<rparr>],
          listPackers =
            [\<lparr>sliceType = TSlice (TPtr (TStruct ''struct { V int32 }'')),
                elem = StructPackerAt 0\<rparr>],
          fieldObjs =
            [\<lparr>fname = ''value'', findex = 0, fdef = None, fpacker = ListPackerAt 0\<rparr>,
             \<lparr>fname = ''v'', findex = 0, fdef = None, fpacker = ValuePacker TInt32\<rparr>],
          allocated = 0\<rparr>"


text \<open>
  What \<^verbatim>\<open>makePacker\<close> decides for a nullable type \<open>t\<close> and the Go type \<open>rt\<close>: whether the
  wrapper adds a pointer (\<^verbatim>\<open>addPtr\<close>), and the Go type its element packer is made for
  (\<^verbatim>\<open>elemType\<close>).
\<close>

fun is_InputObject :: "asttype \<Rightarrow> bool" where
  "is_InputObject (InputObject x) = True"
| "is_InputObject _ = False"

definition adds_pointer :: "asttype \<Rightarrow> gotype \<Rightarrow> bool" where
  "adds_pointer t rt = (kind rt = KPtr \<and> \<not> is_InputObject t)"

definition elem_type :: "asttype \<Rightarrow> gotype \<Rightarrow> gotype" where
  "elem_type t rt = (if adds_pointer t rt then the (Elem rt) else rt)"

text \<open>
  The builder in which \<^verbatim>\<open>assignPacker\<close> calls \<^verbatim>\<open>makePacker\<close> for the first argument
  \<open>v\<close> of the first struct packer of a new builder, \<open>v\<close> being bound to the member \<open>idx\<close> of
  type \<open>rt\<close>: the field object is there and the slot of the pair is reserved. And the
  packer of a result of \<^verbatim>\<open>makePacker\<close>.
\<close>

definition requested :: "InputValueDefinition \<Rightarrow> nat \<Rightarrow> gotype \<Rightarrow> Builder" where
  "requested v idx rt =
     (case field_type v (new_field v idx NewBuilder) of (ft, b1) \<Rightarrow> reserve (ft, rt) b1)"

definition packer_made :: "(error + packer \<times> Builder) option \<Rightarrow> packer option" where
  "packer_made r = (case r of Some (Inr (p, b)) \<Rightarrow> Some p | _ \<Rightarrow> None)"

text \<open>
  The member \<open>i\<close> of a packed struct; a member that was never set holds the zero value of
  its type and is not listed.
\<close>

fun member :: "rvalue \<Rightarrow> nat \<Rightarrow> rvalue option" where
  "member (RStruct t fs) i = map_of fs i"
| "member _ i = None"





text \<open>
  The struct packer loops over its fields and assigns to the member \<^verbatim>\<open>f.index\<close> of the
  struct for each field that a condition selects (the field is in the input map, or it has
  a default value). \<open>written b sel as j\<close> is the last of the fields \<open>as\<close> that is selected
  and bound to the member \<open>j\<close>: the one whose value the member holds after the loop.
\<close>

definition written :: "Builder \<Rightarrow> (structPackerField \<Rightarrow> bool) \<Rightarrow> nat list \<Rightarrow> nat \<Rightarrow> nat option" where
  "written b sel as j =
     (case filter (\<lambda>a. findex (fieldObjs b ! a) = j \<and> sel (fieldObjs b ! a)) as of
        [] \<Rightarrow> None
      | xs \<Rightarrow> Some (last xs))"

text \<open>\<^verbatim>\<open>value, ok := values[f.name]\<close> and \<^verbatim>\<open>f.def != nil\<close>.\<close>

definition present :: "(string \<times> ivalue) list \<Rightarrow> structPackerField \<Rightarrow> bool" where
  "present vals f = (map_of vals (fname f) \<noteq> None)"

definition has_default :: "structPackerField \<Rightarrow> bool" where
  "has_default f = (fdef f \<noteq> None)"

text \<open>
  \<open>x\<close> is what the packer of the field \<open>a\<close> returns for the value the input map has for
  the field.
\<close>

definition packed_by :: "env \<Rightarrow> Builder \<Rightarrow> nat \<Rightarrow> (string \<times> ivalue) list \<Rightarrow> nat \<Rightarrow> rvalue \<Rightarrow> bool" where
  "packed_by E b n vals a x =
     (Pack E b n (fpacker (fieldObjs b ! a)) (the (map_of vals (fname (fieldObjs b ! a))))
        = Some (Inr x))"

text \<open>
  \<open>x\<close> is what the packer of the field \<open>a\<close> returns for the default value of the field, in
  a store that has the packers of \<open>b\<close> (\<^verbatim>\<open>Finish\<close> packs the default values while it
  fills the prototypes one after the other, so the prototypes of that store are the ones
  filled so far).
\<close>

definition default_by :: "env \<Rightarrow> Builder \<Rightarrow> nat \<Rightarrow> nat \<Rightarrow> rvalue \<Rightarrow> bool" where
  "default_by E b fuel a x =
     (\<exists>b0. same_packers b b0
        \<and> Pack E b0 fuel (fpacker (fieldObjs b ! a)) (the (fdef (fieldObjs b ! a))) = Some (Inr x))"

text \<open>
  The second loop of \<^verbatim>\<open>Finish\<close> on one struct packer, from the struct \<open>d\<close> to the
  prototype \<open>d'\<close>: a member holds the packed default value of the last field with a default
  that is bound to it, and is as in \<open>d\<close> when there is none.
\<close>

definition holds_defaults :: "env \<Rightarrow> Builder \<Rightarrow> nat \<Rightarrow> nat list \<Rightarrow> rvalue \<Rightarrow> rvalue \<Rightarrow> bool" where
  "holds_defaults E b fuel as d d' =
     (\<forall>j. case written b has_default as j of
            None \<Rightarrow> member d' j = member d j
          | Some a \<Rightarrow> \<exists>x. default_by E b fuel a x \<and> member d' j = Some x)"

text \<open>The prototype \<open>d\<close> of the struct packer \<open>i\<close>: made from the zero value of its type.\<close>

definition prototype_ok :: "env \<Rightarrow> Builder \<Rightarrow> nat \<Rightarrow> nat \<Rightarrow> rvalue \<Rightarrow> bool" where
  "prototype_ok E b fuel i d =
     (rtype d = Some (structType (structPackers b ! i))
      \<and> holds_defaults E b fuel (fieldRefs (structPackers b ! i))
            (RStruct (structType (structPackers b ! i)) []) d)"

text \<open>
  The loop of \<^verbatim>\<open>StructPacker.Pack\<close> from the prototype \<open>d\<close> to the result \<open>s\<close>: a member
  holds the packed value of the last field of the input map that is bound to it, and is as
  in \<open>d\<close> when there is none.
\<close>

definition overrides :: "env \<Rightarrow> Builder \<Rightarrow> nat \<Rightarrow> (string \<times> ivalue) list \<Rightarrow> nat list
    \<Rightarrow> rvalue \<Rightarrow> rvalue \<Rightarrow> bool" where
  "overrides E b n vals as d s =
     (\<forall>j. case written b (present vals) as j of
            None \<Rightarrow> member s j = member d j
          | Some a \<Rightarrow> \<exists>x. packed_by E b n vals a x \<and> member s j = Some x)"

text \<open>
  No two of the fields \<open>as\<close> are bound to the same member. (Two fields whose names differ
  only in case or underscores match the same member.)
\<close>

definition distinct_members :: "Builder \<Rightarrow> nat list \<Rightarrow> bool" where
  "distinct_members b as = distinct (map (\<lambda>a. findex (fieldObjs b ! a)) as)"

text \<open>\<^verbatim>\<open>FieldByIndex(f.index).Set(x)\<close> does not panic.\<close>

definition settable :: "env \<Rightarrow> Builder \<Rightarrow> gotype \<Rightarrow> nat \<Rightarrow> rvalue \<Rightarrow> bool" where
  "settable E b st a x =
     (findex (fieldObjs b ! a) < length (fields_of E st)
      \<and> can_Set (sfType (fields_of E st ! findex (fieldObjs b ! a))) x)"

text \<open>The struct that a packed struct, or a pointer to one, holds.\<close>

fun struct_value :: "rvalue \<Rightarrow> rvalue" where
  "struct_value (RPtr t s) = s"
| "struct_value s = s"

text \<open>
  Two arguments, \<^verbatim>\<open>first: Int = 10\<close> and \<^verbatim>\<open>after: String\<close>, against
  \<^verbatim>\<open>struct { First int32; After *string }\<close>: the builder when \<^verbatim>\<open>MakeStructPacker\<close> has
  returned, and the store after \<^verbatim>\<open>Finish\<close>.
\<close>

definition pageArgs :: "InputValueDefinition list" where
  "pageArgs = [\<lparr>Name = ''first'', Type = ScalarTypeDefinition ''Int'', Default = Some (VInt32 10)\<rparr>,
               \<lparr>Name = ''after'', Type = ScalarTypeDefinition ''String'', Default = None\<rparr>]"

definition pageBuilt :: Builder where
  "pageBuilt =
     (case MakeStructPacker testEnv 1 NewBuilder pageArgs
             (TStruct ''struct { First int32; After *string }'') of
        Some (Inr (i, b)) \<Rightarrow> b
      | _ \<Rightarrow> NewBuilder)"

definition pageStore :: Builder where
  "pageStore = (case Finish testEnv 1 pageBuilt of Some (Inr b) \<Rightarrow> b | _ \<Rightarrow> NewBuilder)"

text \<open>
  A type with the \<^verbatim>\<open>Nullable\<close> method, as \<^verbatim>\<open>graphql.NullInt\<close> in the argument struct
  of \<^verbatim>\<open>TestNullable\<close>: a struct of the members \<^verbatim>\<open>Value *int32\<close> and \<^verbatim>\<open>Set bool\<close>. The
  type is not among the sources; the environment is a parameter of the model, and this is
  the instance that \<^verbatim>\<open>TestNullable\<close> expects: \<^verbatim>\<open>UnmarshalGraphQL\<close> sets \<^verbatim>\<open>Set\<close>, and
  leaves \<^verbatim>\<open>Value\<close> nil for a null input. The argument \<^verbatim>\<open>value: Int = 5\<close> against
  \<^verbatim>\<open>struct { Value NullInt }\<close>, and the store that \<open>build\<close> ends with.
\<close>

definition NullInt :: Unmarshaler where
  "NullInt = \<lparr>
     ImplementsGraphQLType = (\<lambda>name. name = ''Int''),
     UnmarshalGraphQL = (\<lambda>input.
       case input of
         VNil \<Rightarrow> Inr (RStruct (TStruct ''NullInt'') [(1, ValueOf (VBool True))])
       | VInt32 n \<Rightarrow>
           Inr (RStruct (TStruct ''NullInt'')
                  [(0, RPtr TInt32 (ValueOf (VInt32 n))), (1, ValueOf (VBool True))])
       | _ \<Rightarrow> Inl (UnmarshalError ''wrong type for Int'')),
     Nullable = True\<rparr>"

definition nullableEnv :: env where
  "nullableEnv = testEnv\<lparr>Unmarshalers :=
     (\<lambda>t. if t = TStruct ''NullInt'' then Some NullInt else None)\<rparr>"

definition nullIntArgs :: "InputValueDefinition list" where
  "nullIntArgs = [arg (ScalarTypeDefinition ''Int'') (Some (VInt32 5))]"

definition nullIntStore :: Builder where
  "nullIntStore =
     (case build nullableEnv 1 nullIntArgs (TStruct ''struct { Value NullInt }'') of
        Some (Inr (i, b)) \<Rightarrow> b
      | _ \<Rightarrow> NewBuilder)"

section \<open>Properties of the scalar coercion\<close>

lemma sint_fits: "MinInt32 \<le> n \<Longrightarrow> n \<le> MaxInt32 \<Longrightarrow> sint (word_of_int n :: 32 word) = n"
  by (simp add: MinInt32_def MaxInt32_def sint_sbintrunc' signed_take_bit_int_eq_self)

lemma sint_bounds32: "MinInt32 \<le> sint (w :: 32 word) \<and> sint w \<le> MaxInt32"
  using sint_ge [of w] sint_lt [of w] by (simp add: MinInt32_def MaxInt32_def)

lemma trunc_of_int: "trunc_rat (of_int n) = n"
  by (simp add: trunc_rat_def)

lemma unmarshalInput_VInt:
  "unmarshalInput TInt32 (VInt i) =
     (if sint i < MinInt32 \<or> MaxInt32 < sint i then Inl (Error ''not a 32-bit integer'')
      else Inr (VInt32 (scast i)))"
  unfolding unmarshalInput_def by simp

lemma unmarshalInput_VFloat64:
  "unmarshalInput TInt32 (VFloat64 f) =
     (if f64_less f (Finite (of_int MinInt32)) \<or> f64_less (Finite (of_int MaxInt32)) f
         \<or> f64_neq (Finite (of_int (sint (int32_of_float64 f)))) f
      then Inl (Error ''not a 32-bit integer'')
      else Inr (VInt32 (int32_of_float64 f)))"
  unfolding unmarshalInput_def by (simp add: Let_def del: of_int_sint)

lemma unmarshalInput_int_ok:
  assumes "MinInt32 \<le> sint i" "sint i \<le> MaxInt32"
  shows "\<exists>w. unmarshalInput TInt32 (VInt i) = Inr (VInt32 w) \<and> sint w = sint i"
proof -
  have "\<not> (sint i < MinInt32 \<or> MaxInt32 < sint i)" using assms by linarith
  then have "unmarshalInput TInt32 (VInt i) = Inr (VInt32 (scast i))"
    by (simp only: unmarshalInput_VInt if_False)
  moreover have "sint (scast i :: 32 word) = sint i"
    unfolding scast_eq using assms by (rule sint_fits)
  ultimately show ?thesis by blast
qed

lemma unmarshalInput_int_bad:
  assumes "sint i < MinInt32 \<or> MaxInt32 < sint i"
  shows "unmarshalInput TInt32 (VInt i) = Inl (Error ''not a 32-bit integer'')"
  using assms by (simp only: unmarshalInput_VInt if_True)

lemma unmarshalInput_float_ok:
  assumes "MinInt32 \<le> n" "n \<le> MaxInt32"
  shows "\<exists>w. unmarshalInput TInt32 (VFloat64 (Finite (of_int n))) = Inr (VInt32 w) \<and> sint w = n"
proof -
  have s: "sint (word_of_int n :: 32 word) = n" using assms by (rule sint_fits)
  have "\<not> (rat_of_int n < rat_of_int MinInt32)" "\<not> (rat_of_int MaxInt32 < rat_of_int n)"
    using assms by simp_all
  then have "unmarshalInput TInt32 (VFloat64 (Finite (of_int n))) = Inr (VInt32 (word_of_int n))"
    unfolding unmarshalInput_VFloat64 by (simp add: trunc_of_int s del: of_int_sint)
  with s show ?thesis by blast
qed

lemma unmarshalInput_float_bad:
  assumes h: "\<not> (\<exists>n. MinInt32 \<le> n \<and> n \<le> MaxInt32 \<and> f = Finite (of_int n))"
  shows "unmarshalInput TInt32 (VFloat64 f) = Inl (Error ''not a 32-bit integer'')"
proof (cases f)
  case (Finite r)
  let ?c = "word_of_int (trunc_rat r) :: 32 word"
  have "r < of_int MinInt32 \<or> of_int MaxInt32 < r \<or> of_int (sint ?c) \<noteq> r"
  proof (rule ccontr)
    assume "\<not> ?thesis"
    then have "r = of_int (sint ?c)" by (simp del: of_int_sint)
    with h Finite sint_bounds32 [of ?c] show False by blast
  qed
  then show ?thesis unfolding unmarshalInput_VFloat64 Finite
    by (auto simp del: of_int_sint)
next
  case PosInf then show ?thesis unfolding unmarshalInput_VFloat64 by simp
next
  case NegInf then show ?thesis unfolding unmarshalInput_VFloat64 by simp
next
  case NaN then show ?thesis unfolding unmarshalInput_VFloat64 by simp
qed

text \<open>
  C3. The built-in coercion to \<^verbatim>\<open>int32\<close>: an \<^verbatim>\<open>int\<close> within \<open>[-2^31, 2^31 - 1]\<close> is
  coerced to the \<^verbatim>\<open>int32\<close> of the same value, an \<^verbatim>\<open>int32\<close> is returned as it is, a
  \<^verbatim>\<open>float64\<close> that is exactly an integer of that range is coerced to that integer;
  an \<^verbatim>\<open>int\<close> outside the range, and a \<^verbatim>\<open>float64\<close> that is not an exact integer of the
  range (fractional, too large, infinite or NaN) give the error "not a 32-bit integer",
  which the value packer reports as an error, with no value.
\<close>

theorem C3_int32_coercion:
  "(MinInt32 \<le> sint i \<and> sint i \<le> MaxInt32 \<longrightarrow>
      (\<exists>w. unmarshalInput TInt32 (VInt i) = Inr (VInt32 w) \<and> sint w = sint i
          \<and> ValuePacker_Pack TInt32 (VInt i) = Inr (ValueOf (VInt32 w))))
   \<and> unmarshalInput TInt32 (VInt32 w32) = Inr (VInt32 w32)
   \<and> (MinInt32 \<le> n \<and> n \<le> MaxInt32 \<longrightarrow>
      (\<exists>w. unmarshalInput TInt32 (VFloat64 (Finite (of_int n))) = Inr (VInt32 w) \<and> sint w = n
          \<and> ValuePacker_Pack TInt32 (VFloat64 (Finite (of_int n))) = Inr (ValueOf (VInt32 w))))
   \<and> (sint i < MinInt32 \<or> MaxInt32 < sint i \<longrightarrow>
      unmarshalInput TInt32 (VInt i) = Inl (Error ''not a 32-bit integer'')
      \<and> ValuePacker_Pack TInt32 (VInt i)
          = Inl (CouldNotUnmarshal (VInt i) TInt32 (Error ''not a 32-bit integer'')))
   \<and> (\<not> (\<exists>m. MinInt32 \<le> m \<and> m \<le> MaxInt32 \<and> f = Finite (of_int m)) \<longrightarrow>
      unmarshalInput TInt32 (VFloat64 f) = Inl (Error ''not a 32-bit integer'')
      \<and> ValuePacker_Pack TInt32 (VFloat64 f)
          = Inl (CouldNotUnmarshal (VFloat64 f) TInt32 (Error ''not a 32-bit integer'')))"
proof (intro conjI impI)
  assume a: "MinInt32 \<le> sint i \<and> sint i \<le> MaxInt32"
  then obtain w where w: "unmarshalInput TInt32 (VInt i) = Inr (VInt32 w)" "sint w = sint i"
    using unmarshalInput_int_ok by blast
  then show "\<exists>w. unmarshalInput TInt32 (VInt i) = Inr (VInt32 w) \<and> sint w = sint i
      \<and> ValuePacker_Pack TInt32 (VInt i) = Inr (ValueOf (VInt32 w))"
    by (simp add: ValuePacker_Pack_def)
next
  show "unmarshalInput TInt32 (VInt32 w32) = Inr (VInt32 w32)"
    by (simp add: unmarshalInput_def)
next
  assume a: "MinInt32 \<le> n \<and> n \<le> MaxInt32"
  then obtain w where w: "unmarshalInput TInt32 (VFloat64 (Finite (of_int n))) = Inr (VInt32 w)"
      "sint w = n"
    using unmarshalInput_float_ok by blast
  then show "\<exists>w. unmarshalInput TInt32 (VFloat64 (Finite (of_int n))) = Inr (VInt32 w) \<and> sint w = n
      \<and> ValuePacker_Pack TInt32 (VFloat64 (Finite (of_int n))) = Inr (ValueOf (VInt32 w))"
    by (simp add: ValuePacker_Pack_def)
next
  assume a: "sint i < MinInt32 \<or> MaxInt32 < sint i"
  then show "unmarshalInput TInt32 (VInt i) = Inl (Error ''not a 32-bit integer'')"
    by (rule unmarshalInput_int_bad)
  then show "ValuePacker_Pack TInt32 (VInt i)
      = Inl (CouldNotUnmarshal (VInt i) TInt32 (Error ''not a 32-bit integer''))"
    by (simp add: ValuePacker_Pack_def)
next
  assume a: "\<not> (\<exists>m. MinInt32 \<le> m \<and> m \<le> MaxInt32 \<and> f = Finite (of_int m))"
  then show "unmarshalInput TInt32 (VFloat64 f) = Inl (Error ''not a 32-bit integer'')"
    by (rule unmarshalInput_float_bad)
  then show "ValuePacker_Pack TInt32 (VFloat64 f)
      = Inl (CouldNotUnmarshal (VFloat64 f) TInt32 (Error ''not a 32-bit integer''))"
    by (simp add: ValuePacker_Pack_def)
qed

theorem C3_int32_coercion_witness:
  "(\<exists>w. unmarshalInput TInt32 (VInt 42) = Inr (VInt32 w) \<and> sint w = 42
        \<and> ValuePacker_Pack TInt32 (VInt 42) = Inr (ValueOf (VInt32 w)))
   \<and> (\<exists>w. unmarshalInput TInt32 (VFloat64 (Finite 42)) = Inr (VInt32 w) \<and> sint w = 42
        \<and> ValuePacker_Pack TInt32 (VFloat64 (Finite 42)) = Inr (ValueOf (VInt32 w)))
   \<and> ValuePacker_Pack TInt32 (VInt 2147483648)
        = Inl (CouldNotUnmarshal (VInt 2147483648) TInt32 (Error ''not a 32-bit integer''))
   \<and> ValuePacker_Pack TInt32 (VFloat64 NaN)
        = Inl (CouldNotUnmarshal (VFloat64 NaN) TInt32 (Error ''not a 32-bit integer''))"
proof -
  have r1: "MinInt32 \<le> sint (42 :: 64 word) \<and> sint (42 :: 64 word) \<le> MaxInt32"
    by (simp add: MinInt32_def MaxInt32_def)
  have r2: "MinInt32 \<le> 42 \<and> 42 \<le> MaxInt32"
    by (simp add: MinInt32_def MaxInt32_def)
  have r3: "sint (2147483648 :: 64 word) < MinInt32 \<or> MaxInt32 < sint (2147483648 :: 64 word)"
    by (simp add: MinInt32_def MaxInt32_def)
  have r4: "\<not> (\<exists>m. MinInt32 \<le> m \<and> m \<le> MaxInt32 \<and> NaN = Finite (of_int m))"
    by simp
  show ?thesis
    using C3_int32_coercion [of 42 0 42 NaN] C3_int32_coercion [of 2147483648 0 42 NaN] r1 r2 r3 r4
    by simp
qed

lemma typeof_string_as: "kind T = KString \<Longrightarrow> typeof (string_as T s) = Some T"
  by (induction T) simp_all

lemma unmarshalInput_same: "typeof v = Some T \<Longrightarrow> unmarshalInput T v = Inr v"
  by (simp add: unmarshalInput_def)

lemma kind_Int32_cases: "kind T = KInt32 \<Longrightarrow> T = TInt32 \<or> (\<exists>n u. T = TDefined n u)"
  by (cases T) simp_all

lemma kind_Float64_cases: "kind T = KFloat64 \<Longrightarrow> T = TFloat64 \<or> (\<exists>n u. T = TDefined n u)"
  by (cases T) simp_all

lemma unmarshalInput_result_type:
  assumes T: "T = TInt32 \<or> T = TFloat64 \<or> (kind T \<noteq> KInt32 \<and> kind T \<noteq> KFloat64)"
    and r: "unmarshalInput T v = Inr r"
  shows "typeof r = Some T"
proof (cases "typeof v = Some T")
  case True
  with r show ?thesis by (simp add: unmarshalInput_def)
next
  case False
  show ?thesis
  proof (cases "kind T")
    case KInt32
    with T have "T = TInt32" by auto
    with r False show ?thesis
      by (cases v) (auto simp add: unmarshalInput_def incompatible_def Let_def split: if_splits)
  next
    case KFloat64
    with T have "T = TFloat64" by auto
    with r False show ?thesis
      by (cases v) (auto simp add: unmarshalInput_def incompatible_def Let_def split: if_splits)
  next
    case KString
    with r False show ?thesis
      by (auto simp add: unmarshalInput_def incompatible_def typeof_string_as
          split: if_splits option.splits)
  qed (use r False in \<open>simp_all add: unmarshalInput_def incompatible_def\<close>)
qed

text \<open>
  An input whose dynamic type is already the target type is returned unchanged. When the
  target is \<^verbatim>\<open>int32\<close> or \<^verbatim>\<open>float64\<close> itself, or a type whose kind is neither,
  every successful coercion yields a value of the target type, and coercing the result
  again (also through the value packer) returns it unchanged.
\<close>

lemma unmarshalInput_idempotent:
  "(typeof v = Some T \<longrightarrow> unmarshalInput T v = Inr v)
   \<and> ((T = TInt32 \<or> T = TFloat64 \<or> (kind T \<noteq> KInt32 \<and> kind T \<noteq> KFloat64))
        \<and> unmarshalInput T v = Inr r \<longrightarrow>
      typeof r = Some T \<and> unmarshalInput T r = Inr r \<and> ValuePacker_Pack T r = Inr (ValueOf r))"
proof (intro conjI impI)
  assume "typeof v = Some T" then show "unmarshalInput T v = Inr v" by (rule unmarshalInput_same)
next
  assume a: "(T = TInt32 \<or> T = TFloat64 \<or> (kind T \<noteq> KInt32 \<and> kind T \<noteq> KFloat64))
        \<and> unmarshalInput T v = Inr r"
  then show t: "typeof r = Some T" using unmarshalInput_result_type by blast
  then show u: "unmarshalInput T r = Inr r" by (rule unmarshalInput_same)
  from t have "r \<noteq> VNil" by auto
  with u show "ValuePacker_Pack T r = Inr (ValueOf r)" by (simp add: ValuePacker_Pack_def)
qed

text \<open>
  C9 fails in the code for a defined type of kind \<^verbatim>\<open>Int32\<close> or \<^verbatim>\<open>Float64\<close>. The
  numeric branches of \<^verbatim>\<open>unmarshalInput\<close> are entered on \<^verbatim>\<open>typ.Kind()\<close> and return
  \<^verbatim>\<open>int32(input)\<close> and \<^verbatim>\<open>float64(input)\<close>, values of the predeclared types, where the
  string branch converts to \<^verbatim>\<open>typ\<close>. For \<^verbatim>\<open>type MyInt int32\<close> the coercion of the
  \<^verbatim>\<open>int\<close> 5 succeeds with the \<^verbatim>\<open>int32\<close> 5, whose type is not \<^verbatim>\<open>MyInt\<close>: coercing
  that result a second time fails with "incompatible type: int32", and the value cannot be
  stored in a \<^verbatim>\<open>MyInt\<close> member. The same holds for \<^verbatim>\<open>type MyFloat float64\<close>, while
  for \<^verbatim>\<open>type MyString string\<close> the result has the target type and the second coercion
  returns it unchanged.
\<close>

theorem C9_named_int32_failing_input:
  "unmarshalInput (TDefined ''MyInt'' TInt32) (VInt 5) = Inr (VInt32 5)
   \<and> typeof (VInt32 5) = Some TInt32
   \<and> unmarshalInput (TDefined ''MyInt'' TInt32) (VInt32 5) = Inl (IncompatibleType (Some TInt32))
   \<and> ValuePacker_Pack (TDefined ''MyInt'' TInt32) (VInt 5) = Inr (ValueOf (VInt32 5))
   \<and> \<not> can_Set (TDefined ''MyInt'' TInt32) (ValueOf (VInt32 5))
   \<and> unmarshalInput (TDefined ''MyFloat'' TFloat64) (VInt32 5) = Inr (VFloat64 (Finite 5))
   \<and> unmarshalInput (TDefined ''MyFloat'' TFloat64) (VFloat64 (Finite 5))
        = Inl (IncompatibleType (Some TFloat64))
   \<and> unmarshalInput (TDefined ''MyString'' TString) (VString ''a'')
        = Inr (VDefined ''MyString'' (VString ''a''))
   \<and> unmarshalInput (TDefined ''MyString'' TString) (VDefined ''MyString'' (VString ''a''))
        = Inr (VDefined ''MyString'' (VString ''a''))"
  by (simp add: unmarshalInput_def incompatible_def MinInt32_def MaxInt32_def
      ValuePacker_Pack_def can_Set_def AssignableTo_def ConvertibleTo_string_def)

section \<open>Rule induction over the successful runs of the builder\<close>

lemma assignPacker_Inr:
  assumes "assignPacker E n b tg t rt = Some (Inr b')"
  shows "(\<exists>ref. map_of (packerMap b) (t, rt) = Some ref
            \<and> b' = update_entry (t, rt) (add_target tg) b)
       \<or> (map_of (packerMap b) (t, rt) = None
            \<and> (\<exists>m p b2. n = Suc m
                 \<and> makePacker E m (reserve (t, rt) b) t rt = Some (Inr (p, b2))
                 \<and> b' = update_entry (t, rt) (add_target tg)
                          (update_entry (t, rt) (\<lambda>ref. ref\<lparr>packer := p\<rparr>) b2)))"
  using assms
  by (simp add: assignPacker.simps Let_def
      split: option.splits nat.splits sum.splits prod.splits)

lemma unwrapNonNull_cases:
  "(\<exists>i t'. t = NonNullType i t' \<and> unwrapNonNull t = (t', True))
   \<or> ((\<forall>i t'. t \<noteq> NonNullType i t') \<and> unwrapNonNull t = (t, False))"
  by (cases t) simp_all

lemma makePacker_Inr:
  assumes "makePacker E n b t rt = Some (Inr (p, b'))"
  shows "(\<exists>i t'. t = NonNullType i t' \<and> makeNonNullPacker E n b t' rt = Some (Inr (p, b')))
       \<or> ((\<forall>i t'. t \<noteq> NonNullType i t') \<and> (kind rt = KPtr \<or> isNullable E rt)
            \<and> (\<exists>el rt' addPtr. makeNonNullPacker E n b t rt' = Some (Inr (el, b'))
                  \<and> p = nullPacker el rt addPtr))"
  using assms unwrapNonNull_cases [of t]
  by (auto simp add: makePacker.simps
      split: option.splits sum.splits prod.splits if_splits)

lemma makeNonNullPacker_Inr:
  assumes "makeNonNullPacker E n b t rt = Some (Inr (p, b'))"
  shows "(b' = b \<and> (p = unmarshalerPacker rt \<or> p = ValuePacker rt))
       \<or> (\<exists>x i. t = InputObject x
              \<and> MakeStructPacker E n b (Values E x) rt = Some (Inr (i, b'))
              \<and> p = StructPackerAt i)
       \<or> (\<exists>x ofType et. t = ListType x ofType \<and> kind rt = KSlice \<and> Elem rt = Some et
              \<and> assignPacker E n (new_listPacker rt b) (ElemOf (length (listPackers b))) ofType et
                    = Some (Inr b')
              \<and> p = ListPackerAt (length (listPackers b)))"
  using assms
  by (cases t) (auto simp add: makeNonNullPacker.simps
      split: option.splits sum.splits prod.splits if_splits)

lemma MakeStructPacker_Inr:
  assumes "MakeStructPacker E n b vs typ = Some (Inr (i, b'))"
  shows "\<exists>st fs b1. kind st = KStruct
          \<and> st = (if kind typ = KPtr then the (Elem typ) else typ)
          \<and> makeFields E n b typ st vs [] = Some (Inr (fs, b1))
          \<and> i = length (structPackers b1)
          \<and> b' = new_StructPacker st (kind typ = KPtr) fs b1"
  using assms
  by (auto simp add: MakeStructPacker.simps Let_def
      split: option.splits sum.splits prod.splits if_splits)

lemma makeFields_Cons_Inr:
  assumes "makeFields E n b typ st (v # vs) fs = Some (Inr (fs', b'))"
  shows "\<exists>idx sf ft b1 b2.
          FieldByNameFunc E st (\<lambda>nm. EqualFold (stripUnderscore nm) (stripUnderscore (Name v)))
            = Some (idx, sf)
          \<and> sfPkgPath sf = []
          \<and> \<not> (snd (unwrapNonNull (Type v)) \<and> kind (sfType sf) = KPtr)
          \<and> field_type v (new_field v idx b) = (ft, b1)
          \<and> assignPacker E n b1 (PackerOf (length (fieldObjs b))) ft (sfType sf) = Some (Inr b2)
          \<and> makeFields E n b2 typ st vs (fs @ [length (fieldObjs b)]) = Some (Inr (fs', b'))"
  using assms
  by (auto simp add: makeFields.simps
      split: option.splits sum.splits prod.splits if_splits)

lemma build_induct_all:
  fixes E :: env
    and P1 :: "Builder \<Rightarrow> target \<Rightarrow> asttype \<Rightarrow> gotype \<Rightarrow> Builder \<Rightarrow> bool"
    and P2 :: "Builder \<Rightarrow> asttype \<Rightarrow> gotype \<Rightarrow> packer \<Rightarrow> Builder \<Rightarrow> bool"
    and P3 :: "Builder \<Rightarrow> asttype \<Rightarrow> gotype \<Rightarrow> packer \<Rightarrow> Builder \<Rightarrow> bool"
    and P4 :: "Builder \<Rightarrow> InputValueDefinition list \<Rightarrow> gotype \<Rightarrow> nat \<Rightarrow> Builder \<Rightarrow> bool"
    and P5 :: "Builder \<Rightarrow> gotype \<Rightarrow> InputValueDefinition list \<Rightarrow> nat list \<Rightarrow> nat list \<Rightarrow> Builder \<Rightarrow> bool"
  assumes hit: "\<And>b tg t rt ref. map_of (packerMap b) (t, rt) = Some ref
        \<Longrightarrow> P1 b tg t rt (update_entry (t, rt) (add_target tg) b)"
    and miss: "\<And>m b tg t rt p b2. map_of (packerMap b) (t, rt) = None
        \<Longrightarrow> makePacker E m (reserve (t, rt) b) t rt = Some (Inr (p, b2))
        \<Longrightarrow> P2 (reserve (t, rt) b) t rt p b2
        \<Longrightarrow> P1 b tg t rt (update_entry (t, rt) (add_target tg)
                            (update_entry (t, rt) (\<lambda>ref. ref\<lparr>packer := p\<rparr>) b2))"
    and nonnull: "\<And>n b i t rt p b'. makeNonNullPacker E n b t rt = Some (Inr (p, b'))
        \<Longrightarrow> P3 b t rt p b' \<Longrightarrow> P2 b (NonNullType i t) rt p b'"
    and nullable: "\<And>n b t rt rt' el addPtr b'. \<forall>i t'. t \<noteq> NonNullType i t'
        \<Longrightarrow> kind rt = KPtr \<or> isNullable E rt
        \<Longrightarrow> makeNonNullPacker E n b t rt' = Some (Inr (el, b'))
        \<Longrightarrow> P3 b t rt' el b' \<Longrightarrow> P2 b t rt (nullPacker el rt addPtr) b'"
    and leaf: "\<And>b t rt p. p = unmarshalerPacker rt \<or> p = ValuePacker rt \<Longrightarrow> P3 b t rt p b"
    and struct: "\<And>n b x rt i b'. MakeStructPacker E n b (Values E x) rt = Some (Inr (i, b'))
        \<Longrightarrow> P4 b (Values E x) rt i b' \<Longrightarrow> P3 b (InputObject x) rt (StructPackerAt i) b'"
    and list: "\<And>n b x ofType rt et b'. kind rt = KSlice \<Longrightarrow> Elem rt = Some et
        \<Longrightarrow> assignPacker E n (new_listPacker rt b) (ElemOf (length (listPackers b))) ofType et
              = Some (Inr b')
        \<Longrightarrow> P1 (new_listPacker rt b) (ElemOf (length (listPackers b))) ofType et b'
        \<Longrightarrow> P3 b (ListType x ofType) rt (ListPackerAt (length (listPackers b))) b'"
    and mkstruct: "\<And>n b vs ty st fs b1. kind st = KStruct
        \<Longrightarrow> st = (if kind ty = KPtr then the (Elem ty) else ty)
        \<Longrightarrow> makeFields E n b ty st vs [] = Some (Inr (fs, b1))
        \<Longrightarrow> P5 b st vs [] fs b1
        \<Longrightarrow> P4 b vs ty (length (structPackers b1)) (new_StructPacker st (kind ty = KPtr) fs b1)"
    and fields_nil: "\<And>b st fs. P5 b st [] fs fs b"
    and fields_cons: "\<And>n b ty st v vs fs idx sf ft b1 b2 fs' b'.
        FieldByNameFunc E st (\<lambda>nm. EqualFold (stripUnderscore nm) (stripUnderscore (Name v)))
            = Some (idx, sf)
        \<Longrightarrow> sfPkgPath sf = []
        \<Longrightarrow> \<not> (snd (unwrapNonNull (Type v)) \<and> kind (sfType sf) = KPtr)
        \<Longrightarrow> field_type v (new_field v idx b) = (ft, b1)
        \<Longrightarrow> assignPacker E n b1 (PackerOf (length (fieldObjs b))) ft (sfType sf) = Some (Inr b2)
        \<Longrightarrow> P1 b1 (PackerOf (length (fieldObjs b))) ft (sfType sf) b2
        \<Longrightarrow> makeFields E n b2 ty st vs (fs @ [length (fieldObjs b)]) = Some (Inr (fs', b'))
        \<Longrightarrow> P5 b2 st vs (fs @ [length (fieldObjs b)]) fs' b'
        \<Longrightarrow> P5 b st (v # vs) fs fs' b'"
  shows "(\<forall>b tg t rt b'. assignPacker E n b tg t rt = Some (Inr b') \<longrightarrow> P1 b tg t rt b')
       \<and> (\<forall>b t rt p b'. makePacker E n b t rt = Some (Inr (p, b')) \<longrightarrow> P2 b t rt p b')
       \<and> (\<forall>b t rt p b'. makeNonNullPacker E n b t rt = Some (Inr (p, b')) \<longrightarrow> P3 b t rt p b')
       \<and> (\<forall>b vs ty i b'. MakeStructPacker E n b vs ty = Some (Inr (i, b')) \<longrightarrow> P4 b vs ty i b')
       \<and> (\<forall>b ty st vs fs fs' b'. makeFields E n b ty st vs fs = Some (Inr (fs', b'))
              \<longrightarrow> P5 b st vs fs fs' b')"
proof (induction n rule: less_induct)
  case (less n)
  have a1: "P1 b tg t rt b'" if "assignPacker E n b tg t rt = Some (Inr b')" for b tg t rt b'
    using assignPacker_Inr [OF that]
  proof (elim disjE conjE exE)
    fix ref assume "map_of (packerMap b) (t, rt) = Some ref"
      "b' = update_entry (t, rt) (add_target tg) b"
    then show ?thesis using hit by simp
  next
    fix m p b2
    assume h: "map_of (packerMap b) (t, rt) = None" "n = Suc m"
      "makePacker E m (reserve (t, rt) b) t rt = Some (Inr (p, b2))"
      "b' = update_entry (t, rt) (add_target tg)
              (update_entry (t, rt) (\<lambda>ref. ref\<lparr>packer := p\<rparr>) b2)"
    from h(2) have "m < n" by simp
    from less.IH [OF this] have "\<forall>b t rt p b'. makePacker E m b t rt = Some (Inr (p, b'))
        \<longrightarrow> P2 b t rt p b'"
      by (elim conjE)
    with h(3) have "P2 (reserve (t, rt) b) t rt p b2" by simp
    with h show ?thesis using miss by simp
  qed
  have a5: "P5 b st vs fs fs' b'" if "makeFields E n b ty st vs fs = Some (Inr (fs', b'))"
    for b ty st vs fs fs' b'
    using that
  proof (induction vs arbitrary: b fs)
    case Nil
    then show ?case using fields_nil by (simp add: makeFields.simps)
  next
    case (Cons v vs)
    from makeFields_Cons_Inr [OF Cons.prems] obtain idx sf ft b1 b2 where
      h: "FieldByNameFunc E st (\<lambda>nm. EqualFold (stripUnderscore nm) (stripUnderscore (Name v)))
            = Some (idx, sf)"
        "sfPkgPath sf = []"
        "\<not> (snd (unwrapNonNull (Type v)) \<and> kind (sfType sf) = KPtr)"
        "field_type v (new_field v idx b) = (ft, b1)"
        "assignPacker E n b1 (PackerOf (length (fieldObjs b))) ft (sfType sf) = Some (Inr b2)"
        "makeFields E n b2 ty st vs (fs @ [length (fieldObjs b)]) = Some (Inr (fs', b'))"
      by blast
    show ?case
      by (rule fields_cons [OF h(1) h(2) h(3) h(4) h(5) a1 [OF h(5)] h(6) Cons.IH [OF h(6)]])
  qed
  have a4: "P4 b vs ty i b'" if "MakeStructPacker E n b vs ty = Some (Inr (i, b'))" for b vs ty i b'
  proof -
    from MakeStructPacker_Inr [OF that] obtain st fs b1 where
      h: "kind st = KStruct" "st = (if kind ty = KPtr then the (Elem ty) else ty)"
        "makeFields E n b ty st vs [] = Some (Inr (fs, b1))"
        "i = length (structPackers b1)" "b' = new_StructPacker st (kind ty = KPtr) fs b1"
      by blast
    show ?thesis unfolding h(4) h(5)
      by (rule mkstruct [OF h(1) h(2) h(3) a5 [OF h(3)]])
  qed
  have a3: "P3 b t rt p b'" if "makeNonNullPacker E n b t rt = Some (Inr (p, b'))" for b t rt p b'
    using makeNonNullPacker_Inr [OF that]
  proof (elim disjE conjE exE)
    assume "b' = b" "p = unmarshalerPacker rt"
    then show ?thesis using leaf by simp
  next
    assume "b' = b" "p = ValuePacker rt"
    then show ?thesis using leaf by simp
  next
    fix x i assume h: "t = InputObject x"
      "MakeStructPacker E n b (Values E x) rt = Some (Inr (i, b'))" "p = StructPackerAt i"
    show ?thesis unfolding h(1) h(3) by (rule struct [OF h(2) a4 [OF h(2)]])
  next
    fix x ofType et assume h: "t = ListType x ofType" "kind rt = KSlice" "Elem rt = Some et"
      "assignPacker E n (new_listPacker rt b) (ElemOf (length (listPackers b))) ofType et
         = Some (Inr b')" "p = ListPackerAt (length (listPackers b))"
    show ?thesis unfolding h(1) h(5) by (rule list [OF h(2) h(3) h(4) a1 [OF h(4)]])
  qed
  have a2: "P2 b t rt p b'" if "makePacker E n b t rt = Some (Inr (p, b'))" for b t rt p b'
  proof -
    from makePacker_Inr [OF that] consider
      (nn) i t' where "t = NonNullType i t'" "makeNonNullPacker E n b t' rt = Some (Inr (p, b'))"
    | (nl) el rt' addPtr where "\<forall>i t'. t \<noteq> NonNullType i t'" "kind rt = KPtr \<or> isNullable E rt"
        "makeNonNullPacker E n b t rt' = Some (Inr (el, b'))" "p = nullPacker el rt addPtr"
      by blast
    then show ?thesis
    proof cases
      case nn
      show ?thesis unfolding nn(1) by (rule nonnull [OF nn(2) a3 [OF nn(2)]])
    next
      case nl
      show ?thesis unfolding nl(4) by (rule nullable [OF nl(1) nl(2) nl(3) a3 [OF nl(3)]])
    qed
  qed
  show ?case
  proof (intro conjI allI impI)
    fix b tg t rt b' assume "assignPacker E n b tg t rt = Some (Inr b')"
    then show "P1 b tg t rt b'" by (rule a1)
  next
    fix b t rt p b' assume "makePacker E n b t rt = Some (Inr (p, b'))"
    then show "P2 b t rt p b'" by (rule a2)
  next
    fix b t rt p b' assume "makeNonNullPacker E n b t rt = Some (Inr (p, b'))"
    then show "P3 b t rt p b'" by (rule a3)
  next
    fix b vs ty i b' assume "MakeStructPacker E n b vs ty = Some (Inr (i, b'))"
    then show "P4 b vs ty i b'" by (rule a4)
  next
    fix b ty st vs fs fs' b' assume "makeFields E n b ty st vs fs = Some (Inr (fs', b'))"
    then show "P5 b st vs fs fs' b'" by (rule a5)
  qed
qed

section \<open>What the build functions preserve\<close>

lemma ext_refl [simp]: "grows b b"
  by (simp add: grows_def)

lemma ext_trans: "grows a b \<Longrightarrow> grows b c \<Longrightarrow> grows a c"
  unfolding grows_def
  by (intro conjI allI impI; (elim conjE)?) (blast intro: prefix_order.order_trans)+

lemma entry_of_reserve [simp]:
  "entry_of (reserve k b) = (entry_of b)(k \<mapsto> \<lparr>packer = NilPacker, targets = []\<rparr>)"
  by (simp add: entry_of_def reserve_def update_conv' fun_eq_iff)

lemma entry_of_update_entry [simp]:
  "entry_of (update_entry k f b) = (entry_of b)(k := map_option f (entry_of b k))"
  by (simp add: entry_of_def update_entry_def map_of_map_entry fun_eq_iff split: option.splits)

lemma owns_reserve [simp]: "entry_of b k = None \<Longrightarrow> owns (reserve k b) k' tg = owns b k' tg"
  by (auto simp add: owns_def)

lemma owns_add_target:
  "owns (update_entry k (add_target tg0) b) k' tg \<longleftrightarrow>
     owns b k' tg \<or> (k' = k \<and> tg = tg0 \<and> entry_of b k \<noteq> None)"
  by (auto simp add: owns_def add_target_def)

lemma owns_set_packer [simp]:
  "owns (update_entry k (\<lambda>ref. ref\<lparr>packer := p\<rparr>) b) k' tg = owns b k' tg"
  by (auto simp add: owns_def)

lemma stores_update_entry [simp]:
  "fieldObjs (update_entry k f b) = fieldObjs b" "listPackers (update_entry k f b) = listPackers b"
  "structPackers (update_entry k f b) = structPackers b" "allocated (update_entry k f b) = allocated b"
  by (simp_all add: update_entry_def)

lemma stores_reserve [simp]:
  "fieldObjs (reserve k b) = fieldObjs b" "listPackers (reserve k b) = listPackers b"
  "structPackers (reserve k b) = structPackers b" "allocated (reserve k b) = allocated b"
  by (simp_all add: reserve_def)

lemma new_listPacker_simps [simp]:
  "packerMap (new_listPacker rt b) = packerMap b" "fieldObjs (new_listPacker rt b) = fieldObjs b"
  "listPackers (new_listPacker rt b) = listPackers b @ [\<lparr>sliceType = rt, elem = NilPacker\<rparr>]"
  "structPackers (new_listPacker rt b) = structPackers b"
  "allocated (new_listPacker rt b) = allocated b"
  by (simp_all add: new_listPacker_def)

lemma new_field_simps [simp]:
  "packerMap (new_field v idx b) = packerMap b"
  "fieldObjs (new_field v idx b) = fieldObjs b @
        [\<lparr>fname = Name v, findex = idx, fdef = Default v, fpacker = NilPacker\<rparr>]"
  "listPackers (new_field v idx b) = listPackers b"
  "structPackers (new_field v idx b) = structPackers b"
  "allocated (new_field v idx b) = allocated b"
  by (simp_all add: new_field_def)

lemma new_StructPacker_simps [simp]:
  "packerMap (new_StructPacker st up fs b) = packerMap b"
  "fieldObjs (new_StructPacker st up fs b) = fieldObjs b"
  "listPackers (new_StructPacker st up fs b) = listPackers b"
  "structPackers (new_StructPacker st up fs b) = structPackers b @
        [\<lparr>structType = st, usePtr = up, defaultStruct = None, fieldRefs = fs\<rparr>]"
  "allocated (new_StructPacker st up fs b) = allocated b"
  by (simp_all add: new_StructPacker_def)

lemma field_type_simps [simp]:
  "packerMap (snd (field_type v b)) = packerMap b"
  "fieldObjs (snd (field_type v b)) = fieldObjs b"
  "listPackers (snd (field_type v b)) = listPackers b"
  "structPackers (snd (field_type v b)) = structPackers b"
  by (simp_all add: field_type_def)

lemma entry_of_new [simp]:
  "entry_of (new_listPacker rt b) = entry_of b"
  "entry_of (new_field v idx b) = entry_of b"
  "entry_of (new_StructPacker st up fs b) = entry_of b"
  "entry_of (snd (field_type v b)) = entry_of b"
  by (simp_all add: entry_of_def fun_eq_iff)

lemma owns_new [simp]:
  "owns (new_listPacker rt b) = owns b"
  "owns (new_field v idx b) = owns b"
  "owns (new_StructPacker st up fs b) = owns b"
  "owns (snd (field_type v b)) = owns b"
  by (simp_all add: owns_def fun_eq_iff)

lemma ext_reserve [simp]: "entry_of b k = None \<Longrightarrow> grows b (reserve k b)"
  unfolding grows_def by simp

lemma ext_add_target [simp]: "grows b (update_entry k (add_target tg) b)"
  unfolding grows_def by (simp add: owns_add_target)

lemma ext_set_packer [simp]: "grows b (update_entry k (\<lambda>ref. ref\<lparr>packer := p\<rparr>) b)"
  unfolding grows_def by simp

lemma ext_new_listPacker [simp]: "grows b (new_listPacker rt b)"
  by (simp add: grows_def)

lemma ext_new_field [simp]: "grows b (new_field v idx b)"
  by (simp add: grows_def)

lemma ext_new_StructPacker [simp]: "grows b (new_StructPacker st up fs b)"
  by (simp add: grows_def)

lemma ext_field_type [simp]: "grows b (snd (field_type v b))"
  by (simp add: grows_def)

lemma build_ext_all:
  "(\<forall>b tg t rt b'. assignPacker E n b tg t rt = Some (Inr b') \<longrightarrow> grows b b')
   \<and> (\<forall>b t rt p b'. makePacker E n b t rt = Some (Inr (p, b')) \<longrightarrow> grows b b')
   \<and> (\<forall>b t rt p b'. makeNonNullPacker E n b t rt = Some (Inr (p, b')) \<longrightarrow> grows b b')
   \<and> (\<forall>b vs ty i b'. MakeStructPacker E n b vs ty = Some (Inr (i, b')) \<longrightarrow> grows b b')
   \<and> (\<forall>b ty st vs fs fs' b'. makeFields E n b ty st vs fs = Some (Inr (fs', b')) \<longrightarrow> grows b b')"
proof (rule build_induct_all [where
      ?P1.0 = "\<lambda>b tg t rt b'. grows b b'" and ?P2.0 = "\<lambda>b t rt p b'. grows b b'"
      and ?P3.0 = "\<lambda>b t rt p b'. grows b b'" and ?P4.0 = "\<lambda>b vs ty i b'. grows b b'"
      and ?P5.0 = "\<lambda>b st vs fs fs' b'. grows b b'"], goal_cases)
  case (1 b tg t rt ref) show ?case by simp
next
  case (2 m b tg t rt p b2)
  from 2(1) have "grows b (reserve (t, rt) b)" by (simp add: entry_of_def)
  with 2(3) have "grows b b2" by (rule ext_trans [rotated])
  then show ?case by (rule ext_trans [OF _ ext_trans [OF ext_set_packer ext_add_target]])
next
  case 3 then show ?case by simp
next
  case 4 then show ?case by simp
next
  case 5 show ?case by simp
next
  case 6 then show ?case by simp
next
  case (7 n b x ofType rt et b')
  show ?case by (rule ext_trans [OF ext_new_listPacker 7(4)])
next
  case (8 n b vs ty st fs b1)
  show ?case by (rule ext_trans [OF 8(4) ext_new_StructPacker])
next
  case 9 show ?case by simp
next
  case (10 n b ty st v vs fs idx sf ft b1 b2 fs' b')
  from 10(4) have "b1 = snd (field_type v (new_field v idx b))" by simp
  then have "grows b b1" using ext_trans [OF ext_new_field ext_field_type] by simp
  show ?case by (rule ext_trans [OF \<open>grows b b1\<close> ext_trans [OF 10(6) 10(8)]])
qed


lemma unfinished_prims [simp]:
  "unfinished (reserve k b) = unfinished b"
  "unfinished (update_entry k f b) = unfinished b"
  "unfinished (new_listPacker rt b) = unfinished b"
  "unfinished (new_field v idx b) = unfinished b"
  "unfinished (new_StructPacker st up fs b) = unfinished b"
  "unfinished (snd (field_type v b)) = unfinished b"
  by (auto simp add: unfinished_def)

lemma build_unfinished_all:
  "(\<forall>b tg t rt b'. assignPacker E n b tg t rt = Some (Inr b') \<longrightarrow> unfinished b \<longrightarrow> unfinished b')
   \<and> (\<forall>b t rt p b'. makePacker E n b t rt = Some (Inr (p, b')) \<longrightarrow> unfinished b \<longrightarrow> unfinished b')
   \<and> (\<forall>b t rt p b'. makeNonNullPacker E n b t rt = Some (Inr (p, b')) \<longrightarrow> unfinished b \<longrightarrow> unfinished b')
   \<and> (\<forall>b vs ty i b'. MakeStructPacker E n b vs ty = Some (Inr (i, b')) \<longrightarrow> unfinished b \<longrightarrow> unfinished b')
   \<and> (\<forall>b ty st vs fs fs' b'. makeFields E n b ty st vs fs = Some (Inr (fs', b'))
          \<longrightarrow> unfinished b \<longrightarrow> unfinished b')"
proof (rule build_induct_all [where
      ?P1.0 = "\<lambda>b tg t rt b'. unfinished b \<longrightarrow> unfinished b'"
      and ?P2.0 = "\<lambda>b t rt p b'. unfinished b \<longrightarrow> unfinished b'"
      and ?P3.0 = "\<lambda>b t rt p b'. unfinished b \<longrightarrow> unfinished b'"
      and ?P4.0 = "\<lambda>b vs ty i b'. unfinished b \<longrightarrow> unfinished b'"
      and ?P5.0 = "\<lambda>b st vs fs fs' b'. unfinished b \<longrightarrow> unfinished b'"], goal_cases)
  case 1 show ?case by simp
next
  case 2 then show ?case by simp
next
  case 3 then show ?case by simp
next
  case 4 then show ?case by simp
next
  case 5 show ?case by simp
next
  case 6 then show ?case by simp
next
  case 7 then show ?case by simp
next
  case 8 then show ?case by simp
next
  case 9 show ?case by simp
next
  case (10 n b ty st v vs fs idx sf ft b1 b2 fs' b')
  from 10(4) have "b1 = snd (field_type v (new_field v idx b))" by simp
  then have "unfinished b1 = unfinished b" by simp
  with 10(6) 10(8) show ?case by simp
qed


lemma keys_ok_prims [simp]:
  "keys_ok E (update_entry k f b) = keys_ok E b"
  "keys_ok E (new_listPacker rt b) = keys_ok E b"
  "keys_ok E (new_field v idx b) = keys_ok E b"
  "keys_ok E (new_StructPacker st up fs b) = keys_ok E b"
  "keys_ok E (snd (field_type v b)) = keys_ok E b"
  by (auto simp add: keys_ok_def split: if_splits)



lemma assignPacker_ext: "assignPacker E n b tg t rt = Some (Inr b') \<Longrightarrow> grows b b'"
  using build_ext_all [of E n] by simp

lemma makePacker_ext: "makePacker E n b t rt = Some (Inr (p, b')) \<Longrightarrow> grows b b'"
  using build_ext_all [of E n] by simp

lemma MakeStructPacker_ext: "MakeStructPacker E n b vs ty = Some (Inr (i, b')) \<Longrightarrow> grows b b'"
  using build_ext_all [of E n] by simp

lemma makeFields_ext: "makeFields E n b ty st vs fs = Some (Inr (fs', b')) \<Longrightarrow> grows b b'"
  using build_ext_all [of E n] by simp

lemma MakeStructPacker_unfinished:
  "MakeStructPacker E n b vs ty = Some (Inr (i, b')) \<Longrightarrow> unfinished b \<Longrightarrow> unfinished b'"
  using build_unfinished_all [of E n] by simp









lemma kind_ptr_Elem: "kind ty = KPtr \<Longrightarrow> \<exists>t. Elem ty = Some t"
  by (induction ty) simp_all




section \<open>Packing null, lists, and the rejections of the builder\<close>




lemma packElems_Inr_iff:
  "packElems E b m t p xs = Some (Inr ys) \<longleftrightarrow>
     length ys = length xs \<and>
     (\<forall>i < length xs. Pack E b m p (xs ! i) = Some (Inr (ys ! i)) \<and> can_Set t (ys ! i))"
proof (induction xs arbitrary: ys)
  case Nil
  then show ?case by auto
next
  case (Cons x xs)
  show ?case
  proof (cases ys)
    case Nil
    then show ?thesis by (auto split: option.splits sum.splits)
  next
    case (Cons y ys')
    have "packElems E b m t p (x # xs) = Some (Inr (y # ys')) \<longleftrightarrow>
        Pack E b m p x = Some (Inr y) \<and> can_Set t y \<and> packElems E b m t p xs = Some (Inr ys')"
      by (auto split: option.splits sum.splits)
    also have "\<dots> \<longleftrightarrow> length (y # ys') = length (x # xs) \<and>
        (\<forall>i < length (x # xs). Pack E b m p ((x # xs) ! i) = Some (Inr ((y # ys') ! i))
            \<and> can_Set t ((y # ys') ! i))"
      unfolding Cons.IH [of ys'] by (auto simp add: nth_Cons split: nat.splits)
    finally show ?thesis using Cons by simp
  qed
qed

lemma Pack_list_array:
  assumes "a < length (listPackers b)" "kind (sliceType (listPackers b ! a)) = KSlice"
    "Elem (sliceType (listPackers b ! a)) = Some t"
  shows "Pack E b (Suc m) (ListPackerAt a) (VList xs) =
     (case packElems E b m t (elem (listPackers b ! a)) xs of
        None \<Rightarrow> None | Some (Inl err) \<Rightarrow> Some (Inl err)
      | Some (Inr ys) \<Rightarrow> Some (Inr (RSlice (sliceType (listPackers b ! a)) ys)))"
  using assms by (simp add: Let_def)

lemma Pack_list_single:
  assumes "\<forall>xs. v \<noteq> VList xs"
  shows "Pack E b n (ListPackerAt a) v = Pack E b n (ListPackerAt a) (VList [v])"
  using assms by (cases v) (simp_all add: Let_def)

lemma kind_slice_Elem: "kind T = KSlice \<Longrightarrow> \<exists>t. Elem T = Some t"
  by (induction T) simp_all


text \<open>
  C6. A list packer (an object of the store whose type is a slice type) on an array input
  succeeds with \<open>r\<close> exactly when \<open>r\<close> is a slice of the packer's type, as long as the
  input, whose \<open>i\<close>-th element is the result of the element packer on the \<open>i\<close>-th input
  (a value that can be stored in the slice). An input that is no array is packed as the
  array of that one input: the result is the slice of the one result of the element packer.
\<close>

theorem C6_list_packer:
  assumes "a < length (listPackers b)" "kind (sliceType (listPackers b ! a)) = KSlice"
  shows "\<exists>t. Elem (sliceType (listPackers b ! a)) = Some t
    \<and> (Pack E b (Suc m) (ListPackerAt a) (VList xs) = Some (Inr r) \<longleftrightarrow>
         (\<exists>ys. r = RSlice (sliceType (listPackers b ! a)) ys \<and> length ys = length xs
            \<and> (\<forall>i < length xs.
                  Pack E b m (elem (listPackers b ! a)) (xs ! i) = Some (Inr (ys ! i))
                  \<and> can_Set t (ys ! i))))
    \<and> ((\<forall>xs. v \<noteq> VList xs) \<longrightarrow>
         Pack E b n (ListPackerAt a) v = Pack E b n (ListPackerAt a) (VList [v])
         \<and> (Pack E b (Suc m) (ListPackerAt a) v = Some (Inr r) \<longleftrightarrow>
              (\<exists>y. r = RSlice (sliceType (listPackers b ! a)) [y]
                 \<and> Pack E b m (elem (listPackers b ! a)) v = Some (Inr y) \<and> can_Set t y)))"
proof -
  let ?lp = "listPackers b ! a"
  from assms(2) obtain t where t: "Elem (sliceType ?lp) = Some t"
    using kind_slice_Elem by blast
  have arr: "Pack E b (Suc m) (ListPackerAt a) (VList zs) = Some (Inr r) \<longleftrightarrow>
         (\<exists>ys. r = RSlice (sliceType ?lp) ys \<and> length ys = length zs
            \<and> (\<forall>i < length zs. Pack E b m (elem ?lp) (zs ! i) = Some (Inr (ys ! i))
                  \<and> can_Set t (ys ! i)))" for zs
  proof -
    have "Pack E b (Suc m) (ListPackerAt a) (VList zs) = Some (Inr r) \<longleftrightarrow>
        (\<exists>ys. r = RSlice (sliceType ?lp) ys \<and> packElems E b m t (elem ?lp) zs = Some (Inr ys))"
      unfolding Pack_list_array [OF assms t] by (auto split: option.splits sum.splits)
    then show ?thesis unfolding packElems_Inr_iff by blast
  qed
  have single: "Pack E b (Suc m) (ListPackerAt a) v = Some (Inr r) \<longleftrightarrow>
              (\<exists>y. r = RSlice (sliceType ?lp) [y]
                 \<and> Pack E b m (elem ?lp) v = Some (Inr y) \<and> can_Set t y)"
    if "\<forall>xs. v \<noteq> VList xs"
  proof -
    have "Pack E b (Suc m) (ListPackerAt a) v = Some (Inr r) \<longleftrightarrow>
         (\<exists>ys. r = RSlice (sliceType ?lp) ys \<and> length ys = length [v]
            \<and> (\<forall>i < length [v]. Pack E b m (elem ?lp) ([v] ! i) = Some (Inr (ys ! i))
                  \<and> can_Set t (ys ! i)))"
      unfolding Pack_list_single [OF that, of E b "Suc m" a] by (rule arr)
    also have "\<dots> \<longleftrightarrow> (\<exists>y. r = RSlice (sliceType ?lp) [y]
                 \<and> Pack E b m (elem ?lp) v = Some (Inr y) \<and> can_Set t y)"
      by (auto simp add: length_Suc_conv)
    finally show ?thesis .
  qed
  show ?thesis
  proof (intro exI [of _ t] conjI impI)
    show "Elem (sliceType ?lp) = Some t" by (rule t)
    show "Pack E b (Suc m) (ListPackerAt a) (VList xs) = Some (Inr r) \<longleftrightarrow>
         (\<exists>ys. r = RSlice (sliceType ?lp) ys \<and> length ys = length xs
            \<and> (\<forall>i < length xs. Pack E b m (elem ?lp) (xs ! i) = Some (Inr (ys ! i))
                  \<and> can_Set t (ys ! i)))"
      by (rule arr)
  next
    assume v: "\<forall>xs. v \<noteq> VList xs"
    then show "Pack E b n (ListPackerAt a) v = Pack E b n (ListPackerAt a) (VList [v])"
      by (rule Pack_list_single)
    from v show "Pack E b (Suc m) (ListPackerAt a) v = Some (Inr r) \<longleftrightarrow>
              (\<exists>y. r = RSlice (sliceType ?lp) [y]
                 \<and> Pack E b m (elem ?lp) v = Some (Inr y) \<and> can_Set t y)"
      by (rule single)
  qed
qed



text \<open>\<^verbatim>\<open>list1\<close> and \<^verbatim>\<open>list2\<close> of \<^verbatim>\<open>TestInput\<close>, on the store built for \<^verbatim>\<open>[Input!]!\<close>.\<close>

theorem C6_list_packer_witness:
  "Pack testEnv listStore 2 (ListPackerAt 0)
       (VList [VMap [(''v'', VInt32 41)], VMap [(''v'', VInt32 42)], VMap [(''v'', VInt32 43)]])
     = Some (Inr (RSlice (TSlice (TPtr (TStruct ''struct { V int32 }'')))
          [RPtr (TStruct ''struct { V int32 }'')
             (RStruct (TStruct ''struct { V int32 }'') [(0, ValueOf (VInt32 41))]),
           RPtr (TStruct ''struct { V int32 }'')
             (RStruct (TStruct ''struct { V int32 }'') [(0, ValueOf (VInt32 42))]),
           RPtr (TStruct ''struct { V int32 }'')
             (RStruct (TStruct ''struct { V int32 }'') [(0, ValueOf (VInt32 43))])]))
   \<and> Pack testEnv listStore 2 (ListPackerAt 0) (VMap [(''v'', VInt32 42)])
     = Some (Inr (RSlice (TSlice (TPtr (TStruct ''struct { V int32 }'')))
          [RPtr (TStruct ''struct { V int32 }'')
             (RStruct (TStruct ''struct { V int32 }'') [(0, ValueOf (VInt32 42))])]))"
proof -
  let ?S = "TStruct ''struct { V int32 }''"
  let ?p = "\<lambda>n. RPtr ?S (RStruct ?S [(0, ValueOf (VInt32 n))])"
  have a: "0 < length (listPackers listStore)" by (simp add: listStore_def)
  have k: "kind (sliceType (listPackers listStore ! 0)) = KSlice" by (simp add: listStore_def)
  have t: "Elem (sliceType (listPackers listStore ! 0)) = Some (TPtr ?S)"
    by (simp add: listStore_def)
  have el: "Pack testEnv listStore 1 (elem (listPackers listStore ! 0)) (VMap [(''v'', VInt32 n)])
      = Some (Inr (?p n))" for n
    by code_simp
  have cs: "can_Set (TPtr ?S) (?p n)" for n
    by (simp add: can_Set_def AssignableTo_def)
  have v: "\<forall>xs. VMap [(''v'', VInt32 42)] \<noteq> VList xs" by simp
  from C6_list_packer [OF a k, of testEnv 1
      "[VMap [(''v'', VInt32 41)], VMap [(''v'', VInt32 42)], VMap [(''v'', VInt32 43)]]"
      "RSlice (TSlice (TPtr ?S)) [?p 41, ?p 42, ?p 43]" "VMap [(''v'', VInt32 42)]" 2]
    C6_list_packer [OF a k, of testEnv 1 "[]"
      "RSlice (TSlice (TPtr ?S)) [?p 42]" "VMap [(''v'', VInt32 42)]" 2]
    t el cs v
  show ?thesis
    by (simp add: numeral_2_eq_2 listStore_def less_Suc_eq_0_disj)
qed

lemma valid_ext: "grows b b' \<Longrightarrow> valid_target b x \<Longrightarrow> valid_target b' x"
  unfolding grows_def
  by (cases x) (auto dest: prefix_length_le)

lemma owns_ext: "grows b b' \<Longrightarrow> owns b k x \<Longrightarrow> owns b' k x"
  unfolding grows_def by blast

lemma entry_ext: "grows b b' \<Longrightarrow> entry_of b k \<noteq> None \<Longrightarrow> entry_of b' k \<noteq> None"
  unfolding grows_def by blast

lemma registered_ext:
  assumes "registered b" "grows b b'" "structPackers b' = structPackers b"
  shows "registered b'"
  using assms unfolding registered_def by (metis owns_ext)

lemma only_new_refl [simp]: "only_new b b"
  by (simp add: only_new_def)

lemma only_new_trans:
  assumes "only_new a b" "only_new b c" "grows a b"
  shows "only_new a c"
  unfolding only_new_def
proof (intro allI impI)
  fix k x assume "owns c k x"
  with assms(2) have "owns b k x \<or> \<not> valid_target b x" unfolding only_new_def by blast
  then show "owns a k x \<or> \<not> valid_target a x"
  proof
    assume "owns b k x"
    with assms(1) show ?thesis unfolding only_new_def by blast
  next
    assume "\<not> valid_target b x"
    with valid_ext [OF assms(3)] show ?thesis by blast
  qed
qed

lemma valid_target_prims [simp]:
  "valid_target (reserve k b) x = valid_target b x"
  "valid_target (update_entry k f b) x = valid_target b x"
  "valid_target (new_StructPacker st up fs b) x = valid_target b x"
  "valid_target (snd (field_type v b)) x = valid_target b x"
  by (cases x; simp)+

lemma distinct_keys_prims:
  "distinct (map fst (packerMap b)) \<Longrightarrow> distinct (map fst (packerMap (reserve k b)))"
  "distinct (map fst (packerMap b)) \<Longrightarrow> distinct (map fst (packerMap (update_entry k f b)))"
  by (simp_all add: reserve_def update_entry_def distinct_update distinct_map_entry)

lemma wf_targets_hit:
  assumes wf: "wf_targets b" and v: "valid_target b tg" and fresh: "\<forall>k. \<not> owns b k tg"
  shows "wf_targets (update_entry k (add_target tg) b)"
  unfolding wf_targets_def
proof (intro conjI allI impI)
  fix k1 k2 x
  assume "owns (update_entry k (add_target tg) b) k1 x \<and> owns (update_entry k (add_target tg) b) k2 x"
  then show "k1 = k2"
    using wf fresh unfolding wf_targets_def owns_add_target by metis
next
  fix k' x assume "owns (update_entry k (add_target tg) b) k' x"
  then have "owns b k' x \<or> x = tg" unfolding owns_add_target by blast
  moreover have "owns b k' x \<Longrightarrow> valid_target b x" using wf unfolding wf_targets_def by blast
  ultimately show "valid_target (update_entry k (add_target tg) b) x" using v by auto
next
  show "distinct (map fst (packerMap (update_entry k (add_target tg) b)))"
    using wf unfolding wf_targets_def by (simp add: distinct_keys_prims)
qed

lemma wf_targets_set_packer:
  "wf_targets b \<Longrightarrow> wf_targets (update_entry k (\<lambda>ref. ref\<lparr>packer := p\<rparr>) b)"
  unfolding wf_targets_def by (simp add: distinct_keys_prims)

lemma wf_targets_reserve:
  "wf_targets b \<Longrightarrow> entry_of b k = None \<Longrightarrow> wf_targets (reserve k b)"
  unfolding wf_targets_def by (simp add: distinct_keys_prims)

lemma valid_target_new:
  "valid_target b x \<Longrightarrow> valid_target (new_listPacker rt b) x"
  "valid_target b x \<Longrightarrow> valid_target (new_field v idx b) x"
  by (cases x; simp)+

lemma wf_targets_new_listPacker: "wf_targets b \<Longrightarrow> wf_targets (new_listPacker rt b)"
  unfolding wf_targets_def by (simp add: valid_target_new)

lemma wf_targets_new_field: "wf_targets b \<Longrightarrow> wf_targets (new_field v idx b)"
  unfolding wf_targets_def by (simp add: valid_target_new)

lemma wf_targets_field_type [simp]: "wf_targets (snd (field_type v b)) = wf_targets b"
  unfolding wf_targets_def by simp

lemma wf_targets_new_StructPacker [simp]:
  "wf_targets (new_StructPacker st up fs b) = wf_targets b"
  unfolding wf_targets_def by simp

lemma registered_prims [simp]:
  "entry_of b k = None \<Longrightarrow> registered (reserve k b) = registered b"
  "registered (update_entry k (\<lambda>ref. ref\<lparr>packer := p\<rparr>) b) = registered b"
  "registered (new_listPacker rt b) = registered b"
  "registered (new_field v idx b) = registered b"
  "registered (snd (field_type v b)) = registered b"
  by (simp_all add: registered_def)

lemma registered_add_target:
  "registered b \<Longrightarrow> registered (update_entry k (add_target tg) b)"
  by (rule registered_ext [OF _ ext_add_target]) simp_all

lemma registered_new_StructPacker:
  "registered b \<Longrightarrow> \<forall>a \<in> set fs. \<exists>k. owns b k (PackerOf a)
     \<Longrightarrow> registered (new_StructPacker st up fs b)"
  by (simp add: registered_def)

lemma registered_grows:
  assumes "registered b" "grows b b'"
    and "\<forall>p \<in> set (structPackers b'). p \<in> set (structPackers b)
           \<or> (\<forall>a \<in> set (fieldRefs p). \<exists>k. owns b' k (PackerOf a))"
  shows "registered b'"
  unfolding registered_def
proof (intro ballI)
  fix p a assume p: "p \<in> set (structPackers b')" and a: "a \<in> set (fieldRefs p)"
  from assms(3) p consider "p \<in> set (structPackers b)"
    | "\<forall>a \<in> set (fieldRefs p). \<exists>k. owns b' k (PackerOf a)" by blast
  then show "\<exists>k. owns b' k (PackerOf a)"
  proof cases
    case 1
    with assms(1) a obtain k where "owns b k (PackerOf a)" unfolding registered_def by blast
    with owns_ext [OF assms(2)] show ?thesis by blast
  next
    case 2
    with a show ?thesis by blast
  qed
qed

lemma wf_valid: "wf_targets b \<Longrightarrow> owns b k x \<Longrightarrow> valid_target b x"
  unfolding wf_targets_def by blast

lemma wf_unique: "wf_targets b \<Longrightarrow> owns b k1 x \<Longrightarrow> owns b k2 x \<Longrightarrow> k1 = k2"
  unfolding wf_targets_def by blast

lemma fresh_new_list:
  assumes "wf_targets b"
  shows "valid_target (new_listPacker rt b) (ElemOf (length (listPackers b)))"
    and "\<forall>k. \<not> owns (new_listPacker rt b) k (ElemOf (length (listPackers b)))"
    and "\<not> valid_target b (ElemOf (length (listPackers b)))"
proof -
  show "valid_target (new_listPacker rt b) (ElemOf (length (listPackers b)))" by simp
  show n: "\<not> valid_target b (ElemOf (length (listPackers b)))" by simp
  show "\<forall>k. \<not> owns (new_listPacker rt b) k (ElemOf (length (listPackers b)))"
    using wf_valid [OF assms] n by (simp, blast)
qed

lemma fresh_new_field:
  assumes "wf_targets b" "b1 = snd (field_type v (new_field v idx b))"
  shows "valid_target b1 (PackerOf (length (fieldObjs b)))"
    and "\<forall>k. \<not> owns b1 k (PackerOf (length (fieldObjs b)))"
    and "\<not> valid_target b (PackerOf (length (fieldObjs b)))"
proof -
  show "valid_target b1 (PackerOf (length (fieldObjs b)))" using assms(2) by simp
  show n: "\<not> valid_target b (PackerOf (length (fieldObjs b)))" by simp
  show "\<forall>k. \<not> owns b1 k (PackerOf (length (fieldObjs b)))"
    using wf_valid [OF assms(1)] n unfolding assms(2) by (simp, blast)
qed

lemma only_new_step:
  assumes "\<forall>k x. owns b' k x \<longrightarrow> owns b1 k x \<or> (k = k0 \<and> x = tg) \<or> \<not> valid_target b1 x"
    and "owns b1 = owns b" "\<not> valid_target b tg" "\<forall>x. valid_target b x \<longrightarrow> valid_target b1 x"
  shows "only_new b b'"
  unfolding only_new_def
proof (intro allI impI)
  fix k x assume "owns b' k x"
  with assms(1) have "owns b1 k x \<or> (k = k0 \<and> x = tg) \<or> \<not> valid_target b1 x" by blast
  then show "owns b k x \<or> \<not> valid_target b x"
    using assms(2,3,4) by auto
qed

lemma P_assign_hit:
  assumes "map_of (packerMap b) k = Some ref"
  shows "P_assign b tg k (update_entry k (add_target tg) b)"
  unfolding P_assign_def sound_def
proof (intro impI, elim conjE)
  let ?b' = "update_entry k (add_target tg) b"
  assume h: "wf_targets b" "registered b" "valid_target b tg" "\<forall>k'. \<not> owns b k' tg"
  from assms have e: "entry_of b k \<noteq> None" by (simp add: entry_of_def)
  have "wf_targets ?b'" by (rule wf_targets_hit [OF h(1,3,4)])
  moreover have "registered ?b'" by (rule registered_add_target [OF h(2)])
  moreover have "owns ?b' k tg" using e by (simp add: owns_add_target)
  moreover have "\<forall>k' x. owns ?b' k' x \<longrightarrow> owns b k' x \<or> (k' = k \<and> x = tg) \<or> \<not> valid_target b x"
    by (auto simp add: owns_add_target)
  ultimately show "(wf_targets ?b' \<and> registered ?b') \<and> owns ?b' k tg
      \<and> (\<forall>k' x. owns ?b' k' x \<longrightarrow> owns b k' x \<or> (k' = k \<and> x = tg) \<or> \<not> valid_target b x)"
    by blast
qed

lemma P_assign_miss:
  assumes none: "map_of (packerMap b) k = None"
    and run: "grows (reserve k b) b2" and ih: "P_make (reserve k b) b2"
  shows "P_assign b tg k
           (update_entry k (add_target tg) (update_entry k (\<lambda>ref. ref\<lparr>packer := p\<rparr>) b2))"
  unfolding P_assign_def
proof (intro impI, elim conjE)
  let ?b3 = "update_entry k (\<lambda>ref. ref\<lparr>packer := p\<rparr>) b2"
  let ?b' = "update_entry k (add_target tg) ?b3"
  assume s: "sound b" and v: "valid_target b tg" and fresh: "\<forall>k'. \<not> owns b k' tg"
  from none have e: "entry_of b k = None" by (simp add: entry_of_def)
  from s e have s1: "sound (reserve k b)"
    unfolding sound_def by (simp add: wf_targets_reserve)
  with ih have s2: "sound b2" and new: "only_new (reserve k b) b2"
    unfolding P_make_def by simp_all
  have e2: "entry_of b2 k \<noteq> None"
    by (rule entry_ext [OF run]) simp
  have v2: "valid_target b2 tg" using valid_ext [OF run] v by simp
  have fresh2: "\<forall>k'. \<not> owns b2 k' tg"
  proof (intro allI notI)
    fix k' assume "owns b2 k' tg"
    with new have "owns (reserve k b) k' tg \<or> \<not> valid_target (reserve k b) tg"
      unfolding only_new_def by blast
    with e have "owns b k' tg \<or> \<not> valid_target b tg" by simp
    with fresh v show False by blast
  qed
  have wf3: "wf_targets ?b3" using s2 unfolding sound_def by (simp add: wf_targets_set_packer)
  have v3: "valid_target ?b3 tg" using v2 by simp
  have fresh3: "\<forall>k'. \<not> owns ?b3 k' tg" using fresh2 by simp
  have "wf_targets ?b'" by (rule wf_targets_hit [OF wf3 v3 fresh3])
  moreover have "registered ?b'"
    using s2 unfolding sound_def by (simp add: registered_add_target)
  moreover have "owns ?b' k tg" using e2 by (simp add: owns_add_target)
  moreover have "owns b k' x \<or> (k' = k \<and> x = tg) \<or> \<not> valid_target b x" if "owns ?b' k' x" for k' x
  proof -
    from that have "owns b2 k' x \<or> (k' = k \<and> x = tg)" by (auto simp add: owns_add_target)
    then show ?thesis
    proof
      assume "owns b2 k' x"
      with new have "owns (reserve k b) k' x \<or> \<not> valid_target (reserve k b) x"
        unfolding only_new_def by blast
      with e have "owns b k' x \<or> \<not> valid_target b x" by simp
      then show ?thesis by blast
    qed simp
  qed
  ultimately show "sound ?b' \<and> owns ?b' k tg
      \<and> (\<forall>k' x. owns ?b' k' x \<longrightarrow> owns b k' x \<or> (k' = k \<and> x = tg) \<or> \<not> valid_target b x)"
    unfolding sound_def by blast
qed

lemma P_make_list:
  assumes ih: "P_assign (new_listPacker rt b) (ElemOf (length (listPackers b))) k b'"
  shows "P_make b b'"
  unfolding P_make_def
proof
  let ?b1 = "new_listPacker rt b" and ?tg = "ElemOf (length (listPackers b))"
  assume s: "sound b"
  then have wf: "wf_targets b" unfolding sound_def by simp
  from s have s1: "sound ?b1" unfolding sound_def by (simp add: wf_targets_new_listPacker)
  note f = fresh_new_list [OF wf]
  from ih s1 f(1,2) have r: "sound b'"
    "\<forall>k' x. owns b' k' x \<longrightarrow> owns ?b1 k' x \<or> (k' = k \<and> x = ?tg) \<or> \<not> valid_target ?b1 x"
    unfolding P_assign_def by blast+
  have "only_new b b'"
    by (rule only_new_step [OF r(2) _ f(3)]) (simp_all add: valid_target_new)
  with r(1) show "sound b' \<and> only_new b b'" by simp
qed

lemma P_make_struct:
  assumes ih: "P_fields b [] fs b1"
  shows "P_make b (new_StructPacker st up fs b1)"
  unfolding P_make_def
proof
  assume "sound b"
  with ih have s1: "sound b1" and n: "only_new b b1"
    and o: "\<forall>a \<in> set fs. \<exists>k. owns b1 k (PackerOf a)"
    unfolding P_fields_def by auto
  from s1 o have "sound (new_StructPacker st up fs b1)"
    unfolding sound_def by (simp add: registered_new_StructPacker)
  moreover from n have "only_new b (new_StructPacker st up fs b1)"
    unfolding only_new_def by simp
  ultimately show "sound (new_StructPacker st up fs b1) \<and> only_new b (new_StructPacker st up fs b1)"
    by simp
qed

lemma P_fields_cons:
  assumes b1: "field_type v (new_field v idx b) = (ft, b1)"
    and ih1: "P_assign b1 (PackerOf (length (fieldObjs b))) k b2"
    and g1: "grows b1 b2"
    and ih2: "P_fields b2 (fs @ [length (fieldObjs b)]) fs' b'"
    and g2: "grows b2 b'"
  shows "P_fields b fs fs' b'"
  unfolding P_fields_def
proof
  let ?tg = "PackerOf (length (fieldObjs b))"
  assume s: "sound b"
  then have wf: "wf_targets b" unfolding sound_def by simp
  from b1 have b1': "b1 = snd (field_type v (new_field v idx b))" by simp
  from s have s1: "sound b1"
    unfolding sound_def b1' by (simp add: wf_targets_new_field)
  note f = fresh_new_field [OF wf b1']
  from ih1 s1 f(1,2) have r: "sound b2" "owns b2 k ?tg"
    "\<forall>k' x. owns b2 k' x \<longrightarrow> owns b1 k' x \<or> (k' = k \<and> x = ?tg) \<or> \<not> valid_target b1 x"
    unfolding P_assign_def by blast+
  have gb: "grows b b1"
    unfolding b1' using ext_trans [OF ext_new_field ext_field_type] by simp
  have n1: "only_new b b2"
    by (rule only_new_step [OF r(3) _ f(3)]) (simp_all add: b1' valid_target_new)
  from ih2 r(1) obtain new where r2: "sound b'" "only_new b2 b'"
    "fs' = (fs @ [length (fieldObjs b)]) @ new" "\<forall>a \<in> set new. \<exists>k. owns b' k (PackerOf a)"
    unfolding P_fields_def by blast
  have n: "only_new b b'"
    by (rule only_new_trans [OF n1 r2(2) ext_trans [OF gb g1]])
  have o: "owns b' k ?tg" by (rule owns_ext [OF g2 r(2)])
  have "fs' = fs @ (length (fieldObjs b) # new)" using r2(3) by simp
  moreover have "\<forall>a \<in> set (length (fieldObjs b) # new). \<exists>k. owns b' k (PackerOf a)"
    using o r2(4) by (simp del: split_paired_Ex) blast
  ultimately show "sound b' \<and> only_new b b'
      \<and> (\<exists>new. fs' = fs @ new \<and> (\<forall>a \<in> set new. \<exists>k. owns b' k (PackerOf a)))"
    using r2(1) n by blast
qed

lemma build_sound_all:
  "(\<forall>b tg t rt b'. assignPacker E n b tg t rt = Some (Inr b') \<longrightarrow> P_assign b tg (t, rt) b')
   \<and> (\<forall>b t rt p b'. makePacker E n b t rt = Some (Inr (p, b')) \<longrightarrow> P_make b b')
   \<and> (\<forall>b t rt p b'. makeNonNullPacker E n b t rt = Some (Inr (p, b')) \<longrightarrow> P_make b b')
   \<and> (\<forall>b vs ty i b'. MakeStructPacker E n b vs ty = Some (Inr (i, b')) \<longrightarrow> P_make b b')
   \<and> (\<forall>b ty st vs fs fs' b'. makeFields E n b ty st vs fs = Some (Inr (fs', b'))
          \<longrightarrow> P_fields b fs fs' b')"
proof (rule build_induct_all [where
      ?P1.0 = "\<lambda>b tg t rt b'. P_assign b tg (t, rt) b'"
      and ?P2.0 = "\<lambda>b t rt p b'. P_make b b'"
      and ?P3.0 = "\<lambda>b t rt p b'. P_make b b'"
      and ?P4.0 = "\<lambda>b vs ty i b'. P_make b b'"
      and ?P5.0 = "\<lambda>b st vs fs fs' b'. P_fields b fs fs' b'"], goal_cases)
  case (1 b tg t rt ref)
  then show ?case by (rule P_assign_hit)
next
  case (2 m b tg t rt p b2)
  show ?case by (rule P_assign_miss [OF 2(1) makePacker_ext [OF 2(2)] 2(3)])
next
  case 3 then show ?case by simp
next
  case 4 then show ?case by simp
next
  case 5 show ?case by (simp add: P_make_def)
next
  case 6 then show ?case by simp
next
  case (7 n b x ofType rt et b')
  show ?case by (rule P_make_list [OF 7(4)])
next
  case (8 n b vs ty st fs b1)
  show ?case by (rule P_make_struct [OF 8(4)])
next
  case 9 show ?case by (simp add: P_fields_def)
next
  case (10 n b ty st v vs fs idx sf ft b1 b2 fs' b')
  show ?case
    by (rule P_fields_cons [OF 10(4) 10(6) assignPacker_ext [OF 10(5)] 10(8)
          makeFields_ext [OF 10(7)]])
qed

lemma closed_grows: "closed b p \<Longrightarrow> grows b b' \<Longrightarrow> closed b' p"
  unfolding grows_def
  by (induction b p rule: closed.induct) (auto dest: prefix_length_le)

lemma closed_prims [simp]:
  "closed (reserve k b) p = closed b p"
  "closed (update_entry k f b) p = closed b p"
  "closed (new_field v idx b) p = closed b p"
  "closed (snd (field_type v b)) p = closed b p"
  by (induction b p rule: closed.induct; simp)+

lemma build_closed_all:
  "(\<forall>b tg t rt b'. assignPacker E n b tg t rt = Some (Inr b') \<longrightarrow> True)
   \<and> (\<forall>b t rt p b'. makePacker E n b t rt = Some (Inr (p, b'))
        \<longrightarrow> closed b' p \<and> (snd (unwrapNonNull t) \<longrightarrow> non_null_packer p))
   \<and> (\<forall>b t rt p b'. makeNonNullPacker E n b t rt = Some (Inr (p, b'))
        \<longrightarrow> closed b' p \<and> non_null_packer p)
   \<and> (\<forall>b vs ty i b'. MakeStructPacker E n b vs ty = Some (Inr (i, b'))
        \<longrightarrow> i < length (structPackers b'))
   \<and> (\<forall>b ty st vs fs fs' b'. makeFields E n b ty st vs fs = Some (Inr (fs', b')) \<longrightarrow> True)"
proof (rule build_induct_all [where
      ?P1.0 = "\<lambda>b tg t rt b'. True"
      and ?P2.0 = "\<lambda>b t rt p b'. closed b' p \<and> (snd (unwrapNonNull t) \<longrightarrow> non_null_packer p)"
      and ?P3.0 = "\<lambda>b t rt p b'. closed b' p \<and> non_null_packer p"
      and ?P4.0 = "\<lambda>b vs ty i b'. i < length (structPackers b')"
      and ?P5.0 = "\<lambda>b st vs fs fs' b'. True"], goal_cases)
  case 1 show ?case by simp
next
  case 2 show ?case by simp
next
  case 3 then show ?case by simp
next
  case (4 n b t rt rt' el addPtr b')
  then show ?case by (cases t) simp_all
next
  case 5 then show ?case by auto
next
  case 6 then show ?case by simp
next
  case (7 n b x ofType rt et b')
  from assignPacker_ext [OF 7(3)] have "length (listPackers (new_listPacker rt b)) \<le> length (listPackers b')"
    unfolding grows_def by (auto dest: prefix_length_le)
  then show ?case by simp
next
  case 8 show ?case by (simp add: new_StructPacker_def)
next
  case 9 show ?case by simp
next
  case 10 show ?case by simp
qed

lemma makePacker_result:
  "makePacker E n b t rt = Some (Inr (p, b'))
     \<Longrightarrow> closed b' p \<and> (snd (unwrapNonNull t) \<longrightarrow> non_null_packer p)"
  using build_closed_all [of E n] by simp

lemma pending_add_target [simp]:
  "pending (update_entry k (add_target tg) b) = pending b"
  by (auto simp add: pending_def entry_ok_def add_target_def split: if_splits)

lemma pending_new_field [simp]:
  "pending (new_field v idx b) = pending b"
  "pending (snd (field_type v b)) = pending b"
  by (auto simp add: pending_def entry_ok_def)

lemma pending_grows_objs:
  assumes "grows b b'" "packerMap b' = packerMap b"
  shows "pending b' \<subseteq> pending b"
  using assms closed_grows [OF _ assms(1)]
  by (auto simp add: pending_def entry_ok_def entry_of_def)

lemma pending_reserve: "pending (reserve k b) \<subseteq> insert k (pending b)"
  by (auto simp add: pending_def entry_ok_def split: if_splits)

lemma pending_set_packer:
  assumes "closed b p \<and> (snd (unwrapNonNull (fst k)) \<longrightarrow> non_null_packer p)"
  shows "pending (update_entry k (\<lambda>ref. ref\<lparr>packer := p\<rparr>) b) \<subseteq> pending b - {k}"
  using assms by (auto simp add: pending_def entry_ok_def split: if_splits)

lemma build_pending_all:
  "(\<forall>b tg t rt b'. assignPacker E n b tg t rt = Some (Inr b') \<longrightarrow> pending b' \<subseteq> pending b)
   \<and> (\<forall>b t rt p b'. makePacker E n b t rt = Some (Inr (p, b')) \<longrightarrow> pending b' \<subseteq> pending b)
   \<and> (\<forall>b t rt p b'. makeNonNullPacker E n b t rt = Some (Inr (p, b')) \<longrightarrow> pending b' \<subseteq> pending b)
   \<and> (\<forall>b vs ty i b'. MakeStructPacker E n b vs ty = Some (Inr (i, b')) \<longrightarrow> pending b' \<subseteq> pending b)
   \<and> (\<forall>b ty st vs fs fs' b'. makeFields E n b ty st vs fs = Some (Inr (fs', b'))
          \<longrightarrow> pending b' \<subseteq> pending b)"
proof (rule build_induct_all [where
      ?P1.0 = "\<lambda>b tg t rt b'. pending b' \<subseteq> pending b"
      and ?P2.0 = "\<lambda>b t rt p b'. pending b' \<subseteq> pending b"
      and ?P3.0 = "\<lambda>b t rt p b'. pending b' \<subseteq> pending b"
      and ?P4.0 = "\<lambda>b vs ty i b'. pending b' \<subseteq> pending b"
      and ?P5.0 = "\<lambda>b st vs fs fs' b'. pending b' \<subseteq> pending b"], goal_cases)
  case 1 show ?case by simp
next
  case (2 m b tg t rt p b2)
  have "closed b2 p \<and> (snd (unwrapNonNull (fst (t, rt))) \<longrightarrow> non_null_packer p)"
    using makePacker_result [OF 2(2)] by simp
  from pending_set_packer [OF this] 2(3) pending_reserve [of "(t, rt)" b]
  show ?case by (simp only: pending_add_target) blast
next
  case 3 then show ?case by simp
next
  case 4 then show ?case by simp
next
  case 5 show ?case by simp
next
  case 6 then show ?case by simp
next
  case (7 n b x ofType rt et b')
  have "pending (new_listPacker rt b) \<subseteq> pending b"
    by (rule pending_grows_objs [OF ext_new_listPacker]) (simp add: new_listPacker_def)
  with 7(4) show ?case by blast
next
  case (8 n b vs ty st fs b1)
  have "pending (new_StructPacker st (kind ty = KPtr) fs b1) \<subseteq> pending b1"
    by (rule pending_grows_objs [OF ext_new_StructPacker]) (simp add: new_StructPacker_def)
  with 8(4) show ?case by blast
next
  case 9 show ?case by simp
next
  case (10 n b ty st v vs fs idx sf ft b1 b2 fs' b')
  from 10(4) have "b1 = snd (field_type v (new_field v idx b))" by simp
  then have "pending b1 = pending b" by simp
  with 10(6) 10(8) show ?case by blast
qed

lemma prefix_nth: "prefix xs ys \<Longrightarrow> i < length xs \<Longrightarrow> ys ! i = xs ! i"
  by (auto simp add: prefix_def nth_append)

lemma default_targets_add:
  assumes d: "default_targets b" and same: "fieldObjs b' = fieldObjs b"
    and o: "\<forall>k' x. owns b' k' x \<longrightarrow> owns b k' x \<or> (k' = (t, rt) \<and> x = tg)"
    and tg: "\<forall>a. tg = PackerOf a \<longrightarrow> a < length (fieldObjs b)
              \<and> (fdef (fieldObjs b ! a) \<noteq> None \<longrightarrow> snd (unwrapNonNull t))"
  shows "default_targets b'"
  unfolding default_targets_def
proof (intro allI impI)
  fix k a assume "owns b' k (PackerOf a)"
  with o have "owns b k (PackerOf a) \<or> (k = (t, rt) \<and> PackerOf a = tg)" by blast
  then show "a < length (fieldObjs b')
      \<and> (fdef (fieldObjs b' ! a) \<noteq> None \<longrightarrow> snd (unwrapNonNull (fst k)))"
  proof
    assume "owns b k (PackerOf a)"
    with d show ?thesis unfolding default_targets_def same by blast
  next
    assume "k = (t, rt) \<and> PackerOf a = tg"
    with tg show ?thesis unfolding same by auto
  qed
qed

lemma default_targets_same:
  assumes d: "default_targets b" and p: "prefix (fieldObjs b) (fieldObjs b')"
    and o: "owns b' = owns b"
  shows "default_targets b'"
  unfolding default_targets_def
proof (intro allI impI)
  fix k a assume "owns b' k (PackerOf a)"
  with o have "owns b k (PackerOf a)" by simp
  with d have a: "a < length (fieldObjs b)"
    and n: "fdef (fieldObjs b ! a) \<noteq> None \<longrightarrow> snd (unwrapNonNull (fst k))"
    unfolding default_targets_def by blast+
  from prefix_nth [OF p a] prefix_length_le [OF p] a n
  show "a < length (fieldObjs b')
      \<and> (fdef (fieldObjs b' ! a) \<noteq> None \<longrightarrow> snd (unwrapNonNull (fst k)))"
    by simp
qed

lemma D_assign_hit: "D_assign b tg t (update_entry (t, rt) (add_target tg) b)"
  unfolding D_assign_def
proof (intro impI, elim conjE)
  assume d: "default_targets b"
    and tg: "\<forall>a. tg = PackerOf a \<longrightarrow> a < length (fieldObjs b)
              \<and> (fdef (fieldObjs b ! a) \<noteq> None \<longrightarrow> snd (unwrapNonNull t))"
  show "default_targets (update_entry (t, rt) (add_target tg) b)"
    by (rule default_targets_add [OF d _ _ tg]) (auto simp add: owns_add_target)
qed

lemma D_assign_miss:
  assumes none: "map_of (packerMap b) (t, rt) = None"
    and run: "grows (reserve (t, rt) b) b2"
    and ih: "default_targets (reserve (t, rt) b) \<longrightarrow> default_targets b2"
  shows "D_assign b tg t
           (update_entry (t, rt) (add_target tg) (update_entry (t, rt) (\<lambda>ref. ref\<lparr>packer := p\<rparr>) b2))"
  unfolding D_assign_def
proof (intro impI, elim conjE)
  let ?b3 = "update_entry (t, rt) (\<lambda>ref. ref\<lparr>packer := p\<rparr>) b2"
  assume d: "default_targets b"
    and tg: "\<forall>a. tg = PackerOf a \<longrightarrow> a < length (fieldObjs b)
              \<and> (fdef (fieldObjs b ! a) \<noteq> None \<longrightarrow> snd (unwrapNonNull t))"
  from none have e: "entry_of b (t, rt) = None" by (simp add: entry_of_def)
  have "default_targets (reserve (t, rt) b)"
    by (rule default_targets_same [OF d]) (simp_all add: e fun_eq_iff)
  with ih have d2: "default_targets b2" by simp
  have d3: "default_targets ?b3"
    by (rule default_targets_same [OF d2]) (simp_all add: fun_eq_iff)
  from run have p: "prefix (fieldObjs b) (fieldObjs b2)" unfolding grows_def by simp
  have tg3: "\<forall>a. tg = PackerOf a \<longrightarrow> a < length (fieldObjs ?b3)
              \<and> (fdef (fieldObjs ?b3 ! a) \<noteq> None \<longrightarrow> snd (unwrapNonNull t))"
  proof (intro allI impI)
    fix a assume "tg = PackerOf a"
    with tg have a: "a < length (fieldObjs b)"
      and n: "fdef (fieldObjs b ! a) \<noteq> None \<longrightarrow> snd (unwrapNonNull t)" by blast+
    from prefix_nth [OF p a] prefix_length_le [OF p] a n
    show "a < length (fieldObjs ?b3) \<and> (fdef (fieldObjs ?b3 ! a) \<noteq> None \<longrightarrow> snd (unwrapNonNull t))"
      by simp
  qed
  show "default_targets (update_entry (t, rt) (add_target tg) ?b3)"
    by (rule default_targets_add [OF d3 _ _ tg3]) (auto simp add: owns_add_target)
qed

lemma D_fields_cons:
  assumes b1: "field_type v (new_field v idx b) = (ft, b1)"
    and ih1: "D_assign b1 (PackerOf (length (fieldObjs b))) ft b2"
    and ih2: "default_targets b2 \<longrightarrow> default_targets b'"
  shows "default_targets b \<longrightarrow> default_targets b'"
proof
  assume d: "default_targets b"
  from b1 have b1': "b1 = snd (field_type v (new_field v idx b))"
    and ft: "ft = fst (field_type v (new_field v idx b))" by simp_all
  have d1: "default_targets b1"
    unfolding b1' by (rule default_targets_same [OF d]) simp_all
  have f: "fieldObjs b1 ! length (fieldObjs b)
      = \<lparr>fname = Name v, findex = idx, fdef = Default v, fpacker = NilPacker\<rparr>"
    unfolding b1' by simp
  have "Default v \<noteq> None \<longrightarrow> snd (unwrapNonNull ft)"
    unfolding ft by (simp add: field_type_def)
  with f have "\<forall>a. PackerOf (length (fieldObjs b)) = PackerOf a \<longrightarrow> a < length (fieldObjs b1)
              \<and> (fdef (fieldObjs b1 ! a) \<noteq> None \<longrightarrow> snd (unwrapNonNull ft))"
    unfolding b1' by simp
  with ih1 d1 have "default_targets b2" unfolding D_assign_def by blast
  with ih2 show "default_targets b'" by simp
qed

lemma build_default_all:
  "(\<forall>b tg t rt b'. assignPacker E n b tg t rt = Some (Inr b') \<longrightarrow> D_assign b tg t b')
   \<and> (\<forall>b t rt p b'. makePacker E n b t rt = Some (Inr (p, b'))
        \<longrightarrow> default_targets b \<longrightarrow> default_targets b')
   \<and> (\<forall>b t rt p b'. makeNonNullPacker E n b t rt = Some (Inr (p, b'))
        \<longrightarrow> default_targets b \<longrightarrow> default_targets b')
   \<and> (\<forall>b vs ty i b'. MakeStructPacker E n b vs ty = Some (Inr (i, b'))
        \<longrightarrow> default_targets b \<longrightarrow> default_targets b')
   \<and> (\<forall>b ty st vs fs fs' b'. makeFields E n b ty st vs fs = Some (Inr (fs', b'))
        \<longrightarrow> default_targets b \<longrightarrow> default_targets b')"
proof (rule build_induct_all [where
      ?P1.0 = "\<lambda>b tg t rt b'. D_assign b tg t b'"
      and ?P2.0 = "\<lambda>b t rt p b'. default_targets b \<longrightarrow> default_targets b'"
      and ?P3.0 = "\<lambda>b t rt p b'. default_targets b \<longrightarrow> default_targets b'"
      and ?P4.0 = "\<lambda>b vs ty i b'. default_targets b \<longrightarrow> default_targets b'"
      and ?P5.0 = "\<lambda>b st vs fs fs' b'. default_targets b \<longrightarrow> default_targets b'"], goal_cases)
  case 1 show ?case by (rule D_assign_hit)
next
  case (2 m b tg t rt p b2)
  show ?case by (rule D_assign_miss [OF 2(1) makePacker_ext [OF 2(2)] 2(3)])
next
  case 3 then show ?case by simp
next
  case 4 then show ?case by simp
next
  case 5 show ?case by simp
next
  case 6 then show ?case by simp
next
  case (7 n b x ofType rt et b')
  have "default_targets b \<longrightarrow> default_targets (new_listPacker rt b)"
    by (auto intro: default_targets_same)
  with 7(4) show ?case unfolding D_assign_def by simp
next
  case (8 n b vs ty st fs b1)
  have "default_targets b1 \<longrightarrow> default_targets (new_StructPacker st (kind ty = KPtr) fs b1)"
    by (auto intro: default_targets_same)
  with 8(4) show ?case by blast
next
  case 9 show ?case by simp
next
  case (10 n b ty st v vs fs idx sf ft b1 b2 fs' b')
  show ?case by (rule D_fields_cons [OF 10(4) 10(6) 10(8)])
qed

lemma complete_NewBuilder: "complete NewBuilder"
  by (simp add: complete_def sound_def wf_targets_def registered_def unfinished_def
      pending_def default_targets_def owns_def entry_of_def NewBuilder_def)

lemma MakeStructPacker_complete:
  assumes "MakeStructPacker E n b vs ty = Some (Inr (i, b'))" "complete b"
  shows "complete b'"
proof -
  from assms(2) have h: "sound b" "unfinished b" "pending b = {}" "default_targets b"
    unfolding complete_def by simp_all
  from build_sound_all [of E n] assms(1) have "P_make b b'" by simp
  with h(1) have "sound b'" unfolding P_make_def by simp
  moreover have "unfinished b'" by (rule MakeStructPacker_unfinished [OF assms(1) h(2)])
  moreover from build_pending_all [of E n] assms(1) have "pending b' \<subseteq> pending b" by simp
  with h(3) have "pending b' = {}" by simp
  moreover from build_default_all [of E n] assms(1) h(4) have "default_targets b'" by simp
  ultimately show ?thesis unfolding complete_def by simp
qed

lemma reachable_complete: "reachable E b \<Longrightarrow> complete b"
proof (induction rule: reachable.induct)
  case new
  show ?case by (rule complete_NewBuilder)
next
  case (make b n vs ty i b')
  from MakeStructPacker_complete [OF make(2) make(3)] show ?case .
qed

lemma same_objects_refl [simp]: "same_objects b b"
  by (simp add: same_objects_def)

lemma same_objects_trans: "same_objects a b \<Longrightarrow> same_objects b c \<Longrightarrow> same_objects a c"
  by (simp add: same_objects_def)

lemma same_objects_valid: "same_objects b b' \<Longrightarrow> valid_target b' x = valid_target b x"
  unfolding same_objects_def
  by (cases x) (auto dest: arg_cong [where f = length])

lemma map_update_same: "f (xs ! i) = f y \<Longrightarrow> map f (xs[i := y]) = map f xs"
  by (metis list_update_id map_update)

lemma same_objects_write: "same_objects b (write_target p x b)"
  unfolding same_objects_def write_target_def
  by (cases x) (simp_all add: map_update_same)

lemma read_write_same: "valid_target b x \<Longrightarrow> read_target (write_target p x b) x = p"
  by (cases x) (simp_all add: write_target_def)

lemma read_write_other: "y \<noteq> x \<Longrightarrow> read_target (write_target p x b) y = read_target b y"
  by (cases x; cases y) (simp_all add: write_target_def)

lemma structs_write [simp]: "structPackers (write_target p x b) = structPackers b"
  by (cases x) (simp_all add: write_target_def)

lemma fold_writes_same:
  "same_objects b (fold (\<lambda>(x, p). write_target p x) ws b)"
proof (induction ws arbitrary: b)
  case Nil
  show ?case by simp
next
  case (Cons w ws)
  obtain x p where w: "w = (x, p)" by (cases w)
  from same_objects_trans [OF same_objects_write Cons.IH]
  show ?case by (simp add: w)
qed

lemma fold_writes_structs [simp]:
  "structPackers (fold (\<lambda>(x, p). write_target p x) ws b) = structPackers b"
  by (induction ws arbitrary: b) (simp_all split: prod.splits)

lemma fold_writes_other:
  "y \<notin> fst ` set ws \<Longrightarrow> read_target (fold (\<lambda>(x, p). write_target p x) ws b) y = read_target b y"
proof (induction ws arbitrary: b)
  case Nil
  show ?case by simp
next
  case (Cons w ws)
  obtain x p where w: "w = (x, p)" by (cases w)
  from Cons.prems have "y \<noteq> x" "y \<notin> fst ` set ws" by (auto simp add: w)
  with Cons.IH [of "write_target p x b"] show ?case by (simp add: w read_write_other)
qed

lemma fold_writes_read:
  assumes "(y, q) \<in> set ws" "valid_target b y"
    and "\<forall>x p p'. (x, p) \<in> set ws \<and> (x, p') \<in> set ws \<longrightarrow> p = p'"
  shows "read_target (fold (\<lambda>(x, p). write_target p x) ws b) y = q"
  using assms
proof (induction ws arbitrary: b)
  case Nil
  then show ?case by simp
next
  case (Cons w ws)
  obtain x p where w: "w = (x, p)" by (cases w)
  have v: "valid_target (write_target p x b) y"
    using Cons.prems(2) same_objects_valid [OF same_objects_write] by simp
  have f: "\<forall>x p p'. (x, p) \<in> set ws \<and> (x, p') \<in> set ws \<longrightarrow> p = p'"
    using Cons.prems(3) by (simp del: split_paired_All) blast
  show ?case
  proof (cases "y \<in> fst ` set ws")
    case True
    then obtain q' where q': "(y, q') \<in> set ws" by auto
    with Cons.prems(1,3) have "q' = q" by (simp del: split_paired_All) blast
    with q' Cons.IH [OF _ v f] show ?thesis by (simp add: w)
  next
    case False
    with Cons.prems(1) have e: "x = y" "p = q" by (auto simp add: w image_iff)
    from fold_writes_other [OF False] read_write_same [OF Cons.prems(2)]
    show ?thesis by (simp add: w e)
  qed
qed

lemma assignTargets_writes:
  "fold (\<lambda>(k, entry). fold (write_target (packer entry)) (targets entry)) m b
     = fold (\<lambda>(x, p). write_target p x) (writes m) b"
proof (induction m arbitrary: b)
  case Nil
  show ?case by (simp add: writes_def)
next
  case (Cons ke m)
  obtain k e where ke: "ke = (k, e)" by (cases ke)
  have "fold (write_target (packer e)) (targets e) b
      = fold (\<lambda>(x, p). write_target p x) (map (\<lambda>tg. (tg, packer e)) (targets e)) b"
    by (simp add: fold_map comp_def)
  with Cons.IH show ?case by (simp add: ke writes_def)
qed

lemma in_writes:
  "(x, p) \<in> set (writes m) \<longleftrightarrow> (\<exists>k e. (k, e) \<in> set m \<and> x \<in> set (targets e) \<and> p = packer e)"
  by (auto simp add: writes_def)

lemma wf_entry: "wf_targets b \<Longrightarrow> (k, e) \<in> set (packerMap b) \<longleftrightarrow> entry_of b k = Some e"
  unfolding wf_targets_def entry_of_def by (auto dest: map_of_SomeD)

lemma assignTargets_same: "same_objects b (assignTargets b)"
  unfolding assignTargets_def assignTargets_writes by (rule fold_writes_same)

lemma assignTargets_structs [simp]: "structPackers (assignTargets b) = structPackers b"
  unfolding assignTargets_def assignTargets_writes by simp

lemma assignTargets_read:
  assumes wf: "wf_targets b" and e: "entry_of b k = Some e" and tg: "tg \<in> set (targets e)"
  shows "read_target (assignTargets b) tg = packer e"
  unfolding assignTargets_def assignTargets_writes
proof (rule fold_writes_read)
  show "(tg, packer e) \<in> set (writes (packerMap b))"
    unfolding in_writes using wf_entry [OF wf] e tg by blast
  have "owns b k tg" unfolding owns_def using e tg by blast
  then show "valid_target b tg" by (rule wf_valid [OF wf])
  show "\<forall>x p p'. (x, p) \<in> set (writes (packerMap b)) \<and> (x, p') \<in> set (writes (packerMap b))
      \<longrightarrow> p = p'"
  proof (intro allI impI, elim conjE)
    fix x p p'
    assume "(x, p) \<in> set (writes (packerMap b))" "(x, p') \<in> set (writes (packerMap b))"
    then obtain k1 e1 k2 e2 where h: "entry_of b k1 = Some e1" "x \<in> set (targets e1)"
      "p = packer e1" "entry_of b k2 = Some e2" "x \<in> set (targets e2)" "p' = packer e2"
      unfolding in_writes wf_entry [OF wf] by blast
    then have "owns b k1 x" "owns b k2 x" unfolding owns_def by blast+
    from wf_unique [OF wf this] h show "p = p'" by simp
  qed
qed

lemma same_packers_refl [simp]: "same_packers b b"
  by (simp add: same_packers_def)

lemma same_packers_trans: "same_packers a b \<Longrightarrow> same_packers b c \<Longrightarrow> same_packers a c"
  by (simp add: same_packers_def)

lemma same_packers_objects: "same_packers b b' \<Longrightarrow> same_objects b b'"
  by (simp add: same_packers_def same_objects_def)

lemma same_packers_read: "same_packers b b' \<Longrightarrow> read_target b' x = read_target b x"
  by (cases x) (simp_all add: same_packers_def)

lemma same_packers_length: "same_packers b b' \<Longrightarrow> length (structPackers b') = length (structPackers b)"
  unfolding same_packers_def by (auto dest: arg_cong [where f = length])

lemma same_packers_set_default: "same_packers b (set_defaultStruct i d b)"
  by (simp add: same_packers_def set_defaultStruct_def map_update_same)

lemma setDefaults_same:
  "setDefaults E fuel i as b = Some (Inr b') \<Longrightarrow> same_packers b b'"
proof (induction as arbitrary: b)
  case Nil
  then show ?case by simp
next
  case (Cons a as)
  show ?case
  proof (cases "fdef (fieldObjs b ! a)")
    case None
    with Cons show ?thesis by (simp split: if_splits)
  next
    case (Some dv)
    with Cons.prems obtain d' where "setDefaults E fuel i as (set_defaultStruct i d' b) = Some (Inr b')"
      by (auto split: if_splits option.splits sum.splits)
    from same_packers_trans [OF same_packers_set_default Cons.IH [OF this]] show ?thesis .
  qed
qed

lemma finishStructs_same:
  "finishStructs E fuel is b = Some (Inr b') \<Longrightarrow> same_packers b b'"
proof (induction "is" arbitrary: b)
  case Nil
  then show ?case by simp
next
  case (Cons i "is")
  from Cons.prems obtain b1 where s: "setDefaults E fuel i (fieldRefs (structPackers b ! i))
      (set_defaultStruct i (RStruct (structType (structPackers b ! i)) []) b) = Some (Inr b1)"
    and f: "finishStructs E fuel is b1 = Some (Inr b')"
    by (auto split: option.splits sum.splits)
  from same_packers_trans [OF same_packers_trans [OF same_packers_set_default setDefaults_same [OF s]]
      Cons.IH [OF f]]
  show ?case .
qed

lemma Finish_same:
  assumes "Finish E fuel b = Some (Inr b')"
  shows "same_objects b b'"
  using same_objects_trans [OF assignTargets_same
      same_packers_objects [OF finishStructs_same [OF assms [unfolded Finish_def]]]] .

lemma Finish_read:
  assumes f: "Finish E fuel b = Some (Inr b')" and wf: "wf_targets b"
    and e: "entry_of b k = Some e" and tg: "tg \<in> set (targets e)"
  shows "read_target b' tg = packer e"
  using same_packers_read [OF finishStructs_same [OF f [unfolded Finish_def]], of tg]
    assignTargets_read [OF wf e tg] by simp

text \<open>The prototypes after \<open>Finish\<close>.\<close>

lemma default_set_default:
  "i < length (structPackers b) \<Longrightarrow>
     defaultStruct (structPackers (set_defaultStruct i d b) ! j)
       = (if j = i then Some d else defaultStruct (structPackers b ! j))"
  by (simp add: set_defaultStruct_def nth_list_update)

lemma length_set_default [simp]:
  "length (structPackers (set_defaultStruct i d b)) = length (structPackers b)"
  by (simp add: set_defaultStruct_def)

lemma setDefaults_defaults:
  assumes "setDefaults E fuel i as b = Some (Inr b')" "i < length (structPackers b)"
    "defaultStruct (structPackers b ! j) \<noteq> None"
  shows "defaultStruct (structPackers b' ! j) \<noteq> None"
  using assms
proof (induction as arbitrary: b)
  case Nil
  then show ?case by simp
next
  case (Cons a as)
  show ?case
  proof (cases "fdef (fieldObjs b ! a)")
    case None
    with Cons show ?thesis by (simp split: if_splits)
  next
    case (Some dv)
    with Cons.prems(1) obtain d' where
      s: "setDefaults E fuel i as (set_defaultStruct i d' b) = Some (Inr b')"
      by (auto split: if_splits option.splits sum.splits)
    have "defaultStruct (structPackers (set_defaultStruct i d' b) ! j) \<noteq> None"
      using Cons.prems(2,3) by (auto simp add: default_set_default)
    with Cons.IH [OF s] Cons.prems(2) show ?thesis by simp
  qed
qed

lemma finishStructs_defaults:
  assumes "finishStructs E fuel is b = Some (Inr b')" "\<forall>i \<in> set is. i < length (structPackers b)"
    "j \<in> set is \<or> defaultStruct (structPackers b ! j) \<noteq> None"
  shows "defaultStruct (structPackers b' ! j) \<noteq> None"
  using assms
proof (induction "is" arbitrary: b)
  case Nil
  then show ?case by simp
next
  case (Cons i "is")
  let ?b0 = "set_defaultStruct i (RStruct (structType (structPackers b ! i)) []) b"
  from Cons.prems(1) obtain b1 where s: "setDefaults E fuel i (fieldRefs (structPackers b ! i)) ?b0
      = Some (Inr b1)"
    and f: "finishStructs E fuel is b1 = Some (Inr b')"
    by (auto split: option.splits sum.splits)
  from Cons.prems(2) have i: "i < length (structPackers ?b0)" by simp
  have l: "length (structPackers b1) = length (structPackers b)"
    using same_packers_length [OF setDefaults_same [OF s]] by simp
  have "j \<in> set is \<or> defaultStruct (structPackers b1 ! j) \<noteq> None"
  proof (cases "j \<in> set is")
    case False
    with Cons.prems(3) have "defaultStruct (structPackers ?b0 ! j) \<noteq> None"
      using Cons.prems(2) by (auto simp add: default_set_default)
    from setDefaults_defaults [OF s i this] show ?thesis by simp
  qed simp
  with Cons.IH [OF f] Cons.prems(2) l show ?case by simp
qed

lemma Finish_defaults:
  assumes "Finish E fuel b = Some (Inr b')" "j < length (structPackers b')"
  shows "defaultStruct (structPackers b' ! j) \<noteq> None"
proof -
  note f = assms(1) [unfolded Finish_def]
  have l: "length (structPackers b') = length (structPackers b)"
    using same_packers_length [OF finishStructs_same [OF f]] by simp
  show ?thesis
    by (rule finishStructs_defaults [OF f]) (use assms(2) l in simp_all)
qed

section \<open>The nullable wrapper and the non-null packers\<close>

lemma makePacker_nullable:
  assumes "\<not> snd (unwrapNonNull t)" "makePacker E n b t rt = Some (Inr (p, b'))"
  shows "(kind rt = KPtr \<or> isNullable E rt)
     \<and> (\<exists>el. p = nullPacker el rt (adds_pointer t rt)
          \<and> makeNonNullPacker E n b t (elem_type t rt) = Some (Inr (el, b')))"
proof -
  from assms(1) have u: "unwrapNonNull t = (t, False)" by (cases t) simp_all
  show ?thesis
  proof (cases "kind rt = KPtr")
    case True
    then obtain et where et: "Elem rt = Some et" using kind_ptr_Elem by blast
    show ?thesis
    proof (cases "is_InputObject t")
      case True
      then obtain x where x: "t = InputObject x" by (cases t) simp_all
      from assms(2) show ?thesis
        by (auto simp add: makePacker.simps u et \<open>kind rt = KPtr\<close> x adds_pointer_def
            elem_type_def split: option.splits sum.splits)
    next
      case False
      then have c: "(case t of InputObject x \<Rightarrow> rt | _ \<Rightarrow> et) = et"
        "(case t of InputObject x \<Rightarrow> False | _ \<Rightarrow> True) = True"
        by (cases t; simp)+
      from assms(2) False show ?thesis
        by (auto simp add: makePacker.simps u et \<open>kind rt = KPtr\<close> c adds_pointer_def
            elem_type_def split: option.splits sum.splits)
    qed
  next
    case False
    with assms(2) show ?thesis
      by (auto simp add: makePacker.simps u adds_pointer_def elem_type_def
          split: option.splits sum.splits if_splits)
  qed
qed

lemma makeNonNullPacker_non_null:
  "makeNonNullPacker E n b t rt = Some (Inr (p, b'))
     \<Longrightarrow> closed b' p \<and> non_null_packer p"
  using build_closed_all [of E n] by simp

lemma makeNonNullPacker_kinds:
  assumes "makeNonNullPacker E n b t rt = Some (Inr (p, b'))"
  shows "(Unmarshalers E rt \<noteq> None \<longrightarrow> p = unmarshalerPacker rt)
     \<and> (Unmarshalers E rt = None \<longrightarrow>
          (case t of
             ScalarTypeDefinition x \<Rightarrow> p = ValuePacker rt
           | EnumTypeDefinition x \<Rightarrow> p = ValuePacker rt
           | InputObject x \<Rightarrow> (\<exists>j. p = StructPackerAt j \<and> j < length (structPackers b'))
           | ListType x ofType \<Rightarrow> (\<exists>a. p = ListPackerAt a \<and> a < length (listPackers b'))
           | _ \<Rightarrow> False))"
  using assms makeNonNullPacker_non_null [OF assms]
  by (cases t) (auto simp add: makeNonNullPacker.simps
      split: option.splits sum.splits prod.splits if_splits)

text \<open>
  C5, as the code has it. The wrapper that \<^verbatim>\<open>makePacker\<close> builds for a nullable type
  \<open>t\<close> and the Go type \<open>rt\<close> packs null to the zero value of \<open>rt\<close>, unless \<open>rt\<close> is one of
  the nullable unmarshaler types, and hands every other input to its element packer,
  returning no result or the error when that is what the element packer returns. It adds a
  pointer to the element's value when \<open>rt\<close> is a pointer type and \<open>t\<close> is not an input
  object: then the element packer is the one made for the element type of \<open>rt\<close>. For an
  input object, and for a nullable unmarshaler type, the element packer is made for \<open>rt\<close>
  itself and its result is returned as it is. The packer that \<^verbatim>\<open>makePacker\<close> builds for
  a non-null scalar, enum or input object whose Go type has no unmarshaler is a value
  packer or a struct packer of the builder, and returns the error "got null for non-null"
  on null, in every store that has the struct packers of the builder.
\<close>

theorem C5_null_packing:
  "(\<not> snd (unwrapNonNull t) \<and> makePacker E n b t rt = Some (Inr (p, b')) \<longrightarrow>
      (\<exists>el. p = nullPacker el rt (adds_pointer t rt)
         \<and> makeNonNullPacker E n b t (elem_type t rt) = Some (Inr (el, b'))
         \<and> (\<forall>s m. \<not> isNullable E rt \<longrightarrow> Pack E s m p VNil = Some (Inr (RZero rt)))
         \<and> (\<forall>s m v. v \<noteq> VNil \<or> isNullable E rt \<longrightarrow>
              Pack E s m p v =
                (case Pack E s m el v of
                   None \<Rightarrow> None
                 | Some (Inl err) \<Rightarrow> Some (Inl err)
                 | Some (Inr x) \<Rightarrow>
                     if adds_pointer t rt
                     then if can_Set (elem_type t rt) x
                          then Some (Inr (RPtr (elem_type t rt) x))
                          else Some (Inl (Panic ''reflect.Set''))
                     else Some (Inr x)))))
   \<and> (makePacker E n b (NonNullType i t) rt = Some (Inr (p, b')) \<and> Unmarshalers E rt = None
        \<and> (\<forall>x ofType. t \<noteq> ListType x ofType) \<longrightarrow>
      (p = ValuePacker rt \<or> (\<exists>j. p = StructPackerAt j \<and> j < length (structPackers b')))
      \<and> (\<forall>s m. length (structPackers b') \<le> length (structPackers s) \<longrightarrow>
            Pack E s m p VNil = Some (Inl (Error ''got null for non-null''))))"
proof (intro conjI impI)
  assume a: "\<not> snd (unwrapNonNull t) \<and> makePacker E n b t rt = Some (Inr (p, b'))"
  with makePacker_nullable [of t E n b rt p b'] obtain el
    where k: "kind rt = KPtr \<or> isNullable E rt"
      and p: "p = nullPacker el rt (adds_pointer t rt)"
      and el: "makeNonNullPacker E n b t (elem_type t rt) = Some (Inr (el, b'))"
    by blast
  have e: "adds_pointer t rt \<Longrightarrow> Elem rt = Some (elem_type t rt)"
    using kind_ptr_Elem [of rt] by (auto simp add: adds_pointer_def elem_type_def)
  have z: "Pack E s m p VNil = Some (Inr (RZero rt))" if "\<not> isNullable E rt" for s m
    using that by (simp add: p)
  have d: "Pack E s m p v =
         (case Pack E s m el v of
            None \<Rightarrow> None
          | Some (Inl err) \<Rightarrow> Some (Inl err)
          | Some (Inr x) \<Rightarrow>
              if adds_pointer t rt
              then if can_Set (elem_type t rt) x
                   then Some (Inr (RPtr (elem_type t rt) x))
                   else Some (Inl (Panic ''reflect.Set''))
              else Some (Inr x))" if "v \<noteq> VNil \<or> isNullable E rt" for s m v
    using that e by (auto simp add: p split: option.splits sum.splits)
  from p el z d show "\<exists>el. p = nullPacker el rt (adds_pointer t rt)
         \<and> makeNonNullPacker E n b t (elem_type t rt) = Some (Inr (el, b'))
         \<and> (\<forall>s m. \<not> isNullable E rt \<longrightarrow> Pack E s m p VNil = Some (Inr (RZero rt)))
         \<and> (\<forall>s m v. v \<noteq> VNil \<or> isNullable E rt \<longrightarrow>
              Pack E s m p v =
                (case Pack E s m el v of
                   None \<Rightarrow> None
                 | Some (Inl err) \<Rightarrow> Some (Inl err)
                 | Some (Inr x) \<Rightarrow>
                     if adds_pointer t rt
                     then if can_Set (elem_type t rt) x
                          then Some (Inr (RPtr (elem_type t rt) x))
                          else Some (Inl (Panic ''reflect.Set''))
                     else Some (Inr x)))"
    by blast
next
  assume a: "makePacker E n b (NonNullType i t) rt = Some (Inr (p, b')) \<and> Unmarshalers E rt = None
        \<and> (\<forall>x ofType. t \<noteq> ListType x ofType)"
  then have m: "makeNonNullPacker E n b t rt = Some (Inr (p, b'))"
    by (simp add: makePacker.simps)
  from makeNonNullPacker_kinds [OF m] a
  show c: "p = ValuePacker rt \<or> (\<exists>j. p = StructPackerAt j \<and> j < length (structPackers b'))"
    by (cases t) auto
  show "\<forall>s m. length (structPackers b') \<le> length (structPackers s) \<longrightarrow>
            Pack E s m p VNil = Some (Inl (Error ''got null for non-null''))"
    using c by (auto simp add: ValuePacker_Pack_def)
qed

text \<open>
  The wrappers and packers of \<^verbatim>\<open>value: Int\<close> against \<^verbatim>\<open>*int32\<close>, of
  \<^verbatim>\<open>value: RecursiveInput\<close> against \<^verbatim>\<open>*recursive\<close>, of \<^verbatim>\<open>value: Int!\<close> against
  \<^verbatim>\<open>int32\<close> and of \<^verbatim>\<open>value: Input!\<close> against a struct.
\<close>

theorem C5_null_packing_witness:
  "packer_made (makePacker testEnv 0 (requested (arg (ScalarTypeDefinition ''Int'') None) 0 (TPtr TInt32))
       (ScalarTypeDefinition ''Int'') (TPtr TInt32))
     = Some (nullPacker (ValuePacker TInt32) (TPtr TInt32) True)
   \<and> Pack testEnv recursiveStore 0 (nullPacker (ValuePacker TInt32) (TPtr TInt32) True) VNil
     = Some (Inr (RZero (TPtr TInt32)))
   \<and> Pack testEnv recursiveStore 0 (nullPacker (ValuePacker TInt32) (TPtr TInt32) True) (VInt32 42)
     = Some (Inr (RPtr TInt32 (ValueOf (VInt32 42))))
   \<and> packer_made (makePacker testEnv 0
         (requested (arg (InputObject ''RecursiveInput'') None) 0 (TPtr (TStruct ''recursive'')))
         (InputObject ''RecursiveInput'') (TPtr (TStruct ''recursive'')))
     = Some (nullPacker (StructPackerAt 0) (TPtr (TStruct ''recursive'')) False)
   \<and> Pack testEnv recursiveStore 1 (nullPacker (StructPackerAt 0) (TPtr (TStruct ''recursive'')) False)
        (VMap [])
     = Some (Inr (RPtr (TStruct ''recursive'') (RStruct (TStruct ''recursive'') [])))
   \<and> packer_made (makePacker testEnv 0
         (requested (arg (NonNullType (Parsed 1) (ScalarTypeDefinition ''Int'')) None) 0 TInt32)
         (NonNullType (Parsed 1) (ScalarTypeDefinition ''Int'')) TInt32)
     = Some (ValuePacker TInt32)
   \<and> Pack testEnv recursiveStore 0 (ValuePacker TInt32) VNil
     = Some (Inl (Error ''got null for non-null''))
   \<and> packer_made (makePacker testEnv 1
         (requested (arg (NonNullType (Parsed 4) (InputObject ''Input'')) None) 0
            (TStruct ''struct { V int32 }''))
         (NonNullType (Parsed 4) (InputObject ''Input'')) (TStruct ''struct { V int32 }''))
     = Some (StructPackerAt 0)
   \<and> Pack testEnv listStore 0 (StructPackerAt 0) VNil
     = Some (Inl (Error ''got null for non-null''))"
proof -
  let ?Int = "ScalarTypeDefinition ''Int''" and ?R = "TPtr (TStruct ''recursive'')"
  let ?b1 = "requested (arg ?Int None) 0 (TPtr TInt32)"
  let ?b2 = "requested (arg (InputObject ''RecursiveInput'') None) 0 ?R"
  let ?b3 = "requested (arg (NonNullType (Parsed 1) ?Int) None) 0 TInt32"
  let ?b4 = "requested (arg (NonNullType (Parsed 4) (InputObject ''Input'')) None) 0
            (TStruct ''struct { V int32 }'')"
  have "case makePacker testEnv 0 ?b1 ?Int (TPtr TInt32) of
      Some (Inr (p, b)) \<Rightarrow> p = nullPacker (ValuePacker TInt32) (TPtr TInt32) True | _ \<Rightarrow> False"
    by code_simp
  then obtain b1' where m1: "makePacker testEnv 0 ?b1 ?Int (TPtr TInt32)
      = Some (Inr (nullPacker (ValuePacker TInt32) (TPtr TInt32) True, b1'))"
    by (auto split: option.splits sum.splits)
  have "case makePacker testEnv 0 ?b2 (InputObject ''RecursiveInput'') ?R of
      Some (Inr (p, b)) \<Rightarrow> p = nullPacker (StructPackerAt 0) ?R False | _ \<Rightarrow> False"
    by code_simp
  then obtain b2' where m2: "makePacker testEnv 0 ?b2 (InputObject ''RecursiveInput'') ?R
      = Some (Inr (nullPacker (StructPackerAt 0) ?R False, b2'))"
    by (auto split: option.splits sum.splits)
  have "case makePacker testEnv 0 ?b3 (NonNullType (Parsed 1) ?Int) TInt32 of
      Some (Inr (p, b)) \<Rightarrow> p = ValuePacker TInt32
        \<and> length (structPackers b) \<le> length (structPackers recursiveStore) | _ \<Rightarrow> False"
    by code_simp
  then obtain b3' where m3: "makePacker testEnv 0 ?b3 (NonNullType (Parsed 1) ?Int) TInt32
      = Some (Inr (ValuePacker TInt32, b3'))"
    and l3: "length (structPackers b3') \<le> length (structPackers recursiveStore)"
    by (auto split: option.splits sum.splits)
  have "case makePacker testEnv 1 ?b4 (NonNullType (Parsed 4) (InputObject ''Input''))
        (TStruct ''struct { V int32 }'') of
      Some (Inr (p, b)) \<Rightarrow> p = StructPackerAt 0
        \<and> length (structPackers b) \<le> length (structPackers listStore) | _ \<Rightarrow> False"
    by code_simp
  then obtain b4' where m4: "makePacker testEnv 1 ?b4 (NonNullType (Parsed 4) (InputObject ''Input''))
        (TStruct ''struct { V int32 }'') = Some (Inr (StructPackerAt 0, b4'))"
    and l4: "length (structPackers b4') \<le> length (structPackers listStore)"
    by (auto split: option.splits sum.splits)
  have n: "\<not> isNullable testEnv (TPtr TInt32)" "\<not> isNullable testEnv ?R"
    "Unmarshalers testEnv TInt32 = None"
    "Unmarshalers testEnv (TStruct ''struct { V int32 }'') = None"
    by (simp_all add: isNullable_def testEnv_def)
  have e: "Pack testEnv recursiveStore 0 (ValuePacker TInt32) (VInt32 42)
      = Some (Inr (ValueOf (VInt32 42)))"
    by (simp add: ValuePacker_Pack_def unmarshalInput_def)
  have s: "Pack testEnv recursiveStore 1 (StructPackerAt 0) (VMap [])
      = Some (Inr (RPtr (TStruct ''recursive'') (RStruct (TStruct ''recursive'') [])))"
    by code_simp
  have a: "adds_pointer ?Int (TPtr TInt32)" "elem_type ?Int (TPtr TInt32) = TInt32"
    "\<not> adds_pointer (InputObject ''RecursiveInput'') ?R"
    "can_Set TInt32 (ValueOf (VInt32 42))"
    by (simp_all add: adds_pointer_def elem_type_def can_Set_def AssignableTo_def)
  from C5_null_packing [of ?Int testEnv 0 ?b1 "TPtr TInt32" _ b1'] m1 n(1)
  have c1: "Pack testEnv recursiveStore 0 (nullPacker (ValuePacker TInt32) (TPtr TInt32) True) VNil
      = Some (Inr (RZero (TPtr TInt32)))"
    "Pack testEnv recursiveStore 0 (nullPacker (ValuePacker TInt32) (TPtr TInt32) True) (VInt32 42)
      = Some (Inr (RPtr TInt32 (ValueOf (VInt32 42))))"
    using e a by auto
  from C5_null_packing [of "InputObject ''RecursiveInput''" testEnv 0 ?b2 ?R _ b2'] m2
  have c2: "Pack testEnv recursiveStore 1 (nullPacker (StructPackerAt 0) ?R False) (VMap [])
      = Some (Inr (RPtr (TStruct ''recursive'') (RStruct (TStruct ''recursive'') [])))"
    using s a by auto
  have lt: "\<forall>x ofType. ?Int \<noteq> ListType x ofType"
    "\<forall>x ofType. InputObject ''Input'' \<noteq> ListType x ofType" by simp_all
  from C5_null_packing [of ?Int testEnv 0 ?b3 TInt32 "ValuePacker TInt32" b3' "Parsed 1"]
    m3 n(3) lt(1)
  have "\<forall>s m. length (structPackers b3') \<le> length (structPackers s) \<longrightarrow>
      Pack testEnv s m (ValuePacker TInt32) VNil = Some (Inl (Error ''got null for non-null''))"
    by blast
  with l3 have c3: "Pack testEnv recursiveStore 0 (ValuePacker TInt32) VNil
      = Some (Inl (Error ''got null for non-null''))"
    by blast
  from C5_null_packing [of "InputObject ''Input''" testEnv 1 ?b4
      "TStruct ''struct { V int32 }''" "StructPackerAt 0" b4' "Parsed 4"] m4 n(4) lt(2)
  have "\<forall>s m. length (structPackers b4') \<le> length (structPackers s) \<longrightarrow>
      Pack testEnv s m (StructPackerAt 0) VNil = Some (Inl (Error ''got null for non-null''))"
    by blast
  with l4 have c4: "Pack testEnv listStore 0 (StructPackerAt 0) VNil
      = Some (Inl (Error ''got null for non-null''))"
    by blast
  show ?thesis
    using c1 c2 c3 c4 m1 m2 m3 m4 by (simp add: packer_made_def)
qed

text \<open>
  The claim as it is worded fails for an input object: the wrapper built for
  \<^verbatim>\<open>RecursiveInput\<close> and the pointer type \<^verbatim>\<open>*recursive\<close> adds no pointer; it returns the
  \<^verbatim>\<open>*recursive\<close> of the struct packer, not a pointer to it.
\<close>

theorem C5_input_object_counterexample:
  "packer_made (makePacker testEnv 0
         (requested (arg (InputObject ''RecursiveInput'') None) 0 (TPtr (TStruct ''recursive'')))
         (InputObject ''RecursiveInput'') (TPtr (TStruct ''recursive'')))
     = Some (nullPacker (StructPackerAt 0) (TPtr (TStruct ''recursive'')) False)
   \<and> kind (TPtr (TStruct ''recursive'')) = KPtr
   \<and> fpacker (fieldObjs recursiveStore ! 0)
     = nullPacker (StructPackerAt 0) (TPtr (TStruct ''recursive'')) False
   \<and> Pack testEnv recursiveStore 1 (StructPackerAt 0) (VMap [])
     = Some (Inr (RPtr (TStruct ''recursive'') (RStruct (TStruct ''recursive'') [])))
   \<and> Pack testEnv recursiveStore 1 (nullPacker (StructPackerAt 0) (TPtr (TStruct ''recursive'')) False)
        (VMap [])
     = Some (Inr (RPtr (TStruct ''recursive'') (RStruct (TStruct ''recursive'') [])))
   \<and> Pack testEnv recursiveStore 1 (nullPacker (StructPackerAt 0) (TPtr (TStruct ''recursive'')) False)
        (VMap [])
     \<noteq> Some (Inr (RPtr (TStruct ''recursive'')
          (RPtr (TStruct ''recursive'') (RStruct (TStruct ''recursive'') []))))"
  by code_simp

section \<open>Reserved slots, recursive input types and Finish\<close>



lemma can_Set_struct [simp]: "can_Set t (RStruct t fs)"
  by (simp add: can_Set_def AssignableTo_def)








lemma assignPacker_owns:
  assumes "assignPacker E n b tg t rt = Some (Inr b')"
  shows "owns b' (t, rt) tg"
proof -
  from assignPacker_Inr [OF assms] consider
    (hit) ref where "map_of (packerMap b) (t, rt) = Some ref"
      "b' = update_entry (t, rt) (add_target tg) b"
  | (miss) m p b2 where "makePacker E m (reserve (t, rt) b) t rt = Some (Inr (p, b2))"
      "b' = update_entry (t, rt) (add_target tg)
              (update_entry (t, rt) (\<lambda>ref. ref\<lparr>packer := p\<rparr>) b2)"
    by blast
  then show ?thesis
  proof cases
    case hit
    then show ?thesis by (simp add: owns_add_target entry_of_def)
  next
    case miss
    have "entry_of b2 (t, rt) \<noteq> None"
      by (rule entry_ext [OF makePacker_ext [OF miss(1)]]) simp
    then show ?thesis by (simp add: miss(2) owns_add_target)
  qed
qed





section \<open>The struct packer, its prototype and the default values\<close>

lemma written_Nil [simp]: "written b sel [] j = None"
  by (simp add: written_def)

lemma written_Cons:
  "written b sel (a # as) j =
     (case written b sel as j of
        Some a' \<Rightarrow> Some a'
      | None \<Rightarrow> if findex (fieldObjs b ! a) = j \<and> sel (fieldObjs b ! a) then Some a else None)"
  by (simp add: written_def split: list.splits)

lemma written_in: "written b sel as j = Some a \<Longrightarrow>
    a \<in> set as \<and> findex (fieldObjs b ! a) = j \<and> sel (fieldObjs b ! a)"
proof (induction as)
  case (Cons a' as)
  then show ?case by (auto simp add: written_Cons split: option.splits if_splits)
qed simp

lemma written_None: "written b sel as j = None \<longleftrightarrow>
    (\<forall>a \<in> set as. \<not> (findex (fieldObjs b ! a) = j \<and> sel (fieldObjs b ! a)))"
  by (induction as) (auto simp add: written_Cons split: option.splits if_splits)

lemma written_distinct:
  assumes "distinct (map (\<lambda>a. findex (fieldObjs b ! a)) as)" "a \<in> set as"
  shows "written b sel as (findex (fieldObjs b ! a)) = (if sel (fieldObjs b ! a) then Some a else None)"
  using assms
proof (induction as)
  case (Cons a' as)
  show ?case
  proof (cases "a = a'")
    case True
    with Cons.prems(1) have "\<forall>c \<in> set as. findex (fieldObjs b ! c) \<noteq> findex (fieldObjs b ! a)"
      by (auto simp add: image_iff)
    then have "written b sel as (findex (fieldObjs b ! a)) = None"
      unfolding written_None by blast
    then show ?thesis by (simp add: written_Cons True)
  next
    case False
    with Cons.prems have in_as: "a \<in> set as" and d: "distinct (map (\<lambda>a. findex (fieldObjs b ! a)) as)"
      and ne: "findex (fieldObjs b ! a') \<noteq> findex (fieldObjs b ! a)"
      by auto
    from Cons.IH [OF d in_as] ne show ?thesis
      by (simp add: written_Cons)
  qed
qed simp

lemma written_same_fields:
  "fieldObjs b' = fieldObjs b \<Longrightarrow> written b' sel as j = written b sel as j"
  by (simp add: written_def)

lemma set_field_Inr:
  assumes "set_field E st i packed s = Inr s'"
  shows "rtype s' = rtype s \<and> member s' j = (if j = i then Some packed else member s j)
     \<and> i < length (fields_of E st) \<and> can_Set (sfType (fields_of E st ! i)) packed
     \<and> (\<exists>t fs. s = RStruct t fs)"
  using assms
  by (cases s) (auto simp add: set_field_def update_conv' split: if_splits)

lemma set_field_ok:
  "i < length (fields_of E st) \<Longrightarrow> can_Set (sfType (fields_of E st ! i)) packed
     \<Longrightarrow> \<exists>s'. set_field E st i packed (RStruct t fs) = Inr s' \<and> (\<exists>fs'. s' = RStruct t fs')"
  by (simp add: set_field_def)

lemma packFields_Inr:
  assumes "packFields E b n st as vals s = Some (Inr s')"
  shows "rtype s' = rtype s
     \<and> (\<forall>a \<in> set as. a < length (fieldObjs b)
           \<and> (present vals (fieldObjs b ! a) \<longrightarrow> (\<exists>x. packed_by E b n vals a x)))
     \<and> (\<forall>j. case written b (present vals) as j of
               None \<Rightarrow> member s' j = member s j
             | Some a \<Rightarrow> \<exists>x. packed_by E b n vals a x \<and> member s' j = Some x)"
  using assms
proof (induction as arbitrary: s)
  case Nil
  then show ?case by simp
next
  case (Cons a as)
  from Cons.prems have a: "a < length (fieldObjs b)" by (simp split: if_splits)
  let ?f = "fieldObjs b ! a"
  show ?case
  proof (cases "map_of vals (fname ?f)")
    case None
    with Cons.prems a have r: "packFields E b n st as vals s = Some (Inr s')" by simp
    from None have np: "\<not> present vals ?f" by (simp add: present_def)
    have w: "written b (present vals) (a # as) j = written b (present vals) as j" for j
      using np by (simp add: written_Cons split: option.splits)
    from Cons.IH [OF r] a np show ?thesis
      unfolding w by simp
  next
    case (Some v)
    with Cons.prems a obtain x s1 where p: "Pack E b n (fpacker ?f) v = Some (Inr x)"
      and sf: "set_field E st (findex ?f) x s = Inr s1"
      and r: "packFields E b n st as vals s1 = Some (Inr s')"
      by (auto simp add: Let_def split: option.splits sum.splits)
    from Some p have pb: "packed_by E b n vals a x" and pr: "present vals ?f"
      by (simp_all add: packed_by_def present_def)
    note s1 = set_field_Inr [OF sf]
    note ih = Cons.IH [OF r]
    from ih have ih3: "case written b (present vals) as j of
               None \<Rightarrow> member s' j = member s1 j
             | Some a \<Rightarrow> \<exists>x. packed_by E b n vals a x \<and> member s' j = Some x" for j
      by blast
    have "rtype s' = rtype s" using ih s1 by simp
    moreover have "\<forall>a' \<in> set (a # as). a' < length (fieldObjs b)
           \<and> (present vals (fieldObjs b ! a') \<longrightarrow> (\<exists>x. packed_by E b n vals a' x))"
      using ih a pb by auto
    moreover have "case written b (present vals) (a # as) j of
               None \<Rightarrow> member s' j = member s j
             | Some a \<Rightarrow> \<exists>x. packed_by E b n vals a x \<and> member s' j = Some x" for j
    proof (cases "written b (present vals) as j")
      case None
      with ih3 [of j] have m: "member s' j = member s1 j" by simp
      show ?thesis
      proof (cases "findex ?f = j")
        case True
        with s1 [of j] have "member s1 j = Some x" by simp
        with m pb pr None True show ?thesis by (auto simp add: written_Cons)
      next
        case False
        with s1 [of j] have "member s1 j = member s j" by simp
        with m None False show ?thesis by (simp add: written_Cons)
      qed
    next
      case (Some a')
      with ih3 [of j] have "\<exists>x. packed_by E b n vals a' x \<and> member s' j = Some x"
        by simp
      with Some show ?thesis by (simp add: written_Cons)
    qed
    ultimately show ?thesis by blast
  qed
qed

lemma packFields_returns:
  assumes "\<forall>a \<in> set as. a < length (fieldObjs b)
           \<and> (present vals (fieldObjs b ! a) \<longrightarrow>
                 (\<exists>x. packed_by E b n vals a x \<and> findex (fieldObjs b ! a) < length (fields_of E st)
                    \<and> can_Set (sfType (fields_of E st ! findex (fieldObjs b ! a))) x))"
  shows "\<exists>s'. packFields E b n st as vals (RStruct t fs) = Some (Inr s')"
  using assms
proof (induction as arbitrary: fs)
  case Nil
  show ?case by simp
next
  case (Cons a as)
  let ?f = "fieldObjs b ! a"
  from Cons.prems have a: "a < length (fieldObjs b)" by simp
  show ?case
  proof (cases "map_of vals (fname ?f)")
    case None
    with Cons.IH [of fs] Cons.prems a show ?thesis by simp
  next
    case (Some v)
    then have "present vals ?f" by (simp add: present_def)
    with Cons.prems obtain x where x: "packed_by E b n vals a x"
      "findex ?f < length (fields_of E st)" "can_Set (sfType (fields_of E st ! findex ?f)) x"
      by auto
    from set_field_ok [OF x(2,3), of t fs] obtain fs' where
      "set_field E st (findex ?f) x (RStruct t fs) = Inr (RStruct t fs')" by blast
    moreover from Cons.IH [of fs'] Cons.prems obtain s' where
      "packFields E b n st as vals (RStruct t fs') = Some (Inr s')" by auto
    ultimately show ?thesis using a Some x(1) by (simp add: packed_by_def)
  qed
qed

lemma same_packers_sym: "same_packers a b \<Longrightarrow> same_packers b a"
  by (simp add: same_packers_def)

lemma default_by_same:
  assumes "same_packers b b'"
  shows "default_by E b' fuel a x = default_by E b fuel a x"
proof -
  from assms have f: "fieldObjs b' = fieldObjs b" by (simp add: same_packers_def)
  have "same_packers b' b0 = same_packers b b0" for b0
    using assms by (auto simp add: same_packers_def)
  then show ?thesis unfolding default_by_def f by simp
qed

lemma holds_defaults_same:
  assumes "same_packers b b'"
  shows "holds_defaults E b' fuel as d d' = holds_defaults E b fuel as d d'"
proof -
  from assms have "fieldObjs b' = fieldObjs b" by (simp add: same_packers_def)
  from written_same_fields [OF this] default_by_same [OF assms]
  show ?thesis by (simp add: holds_defaults_def cong: option.case_cong)
qed

lemma setDefaults_spec:
  assumes "setDefaults E fuel i as b = Some (Inr b')" "i < length (structPackers b)"
    "defaultStruct (structPackers b ! i) = Some d"
  shows "\<exists>d'. defaultStruct (structPackers b' ! i) = Some d' \<and> rtype d' = rtype d
           \<and> holds_defaults E b fuel as d d'"
  using assms
proof (induction as arbitrary: b d)
  case Nil
  then show ?case by (simp add: holds_defaults_def)
next
  case (Cons a as)
  let ?f = "fieldObjs b ! a"
  from Cons.prems(1) have a: "a < length (fieldObjs b)" by (simp split: if_splits)
  show ?case
  proof (cases "fdef ?f")
    case None
    with Cons.prems(1) a have r: "setDefaults E fuel i as b = Some (Inr b')" by simp
    from None have w: "written b has_default (a # as) j = written b has_default as j" for j
      by (simp add: written_Cons has_default_def split: option.splits)
    from Cons.IH [OF r Cons.prems(2,3)] show ?thesis
      unfolding holds_defaults_def w .
  next
    case (Some dv)
    with Cons.prems(1,3) a obtain x d1 where p: "Pack E b fuel (fpacker ?f) dv = Some (Inr x)"
      and sf: "set_field E (structType (structPackers b ! i)) (findex ?f) x d = Inr d1"
      and r: "setDefaults E fuel i as (set_defaultStruct i d1 b) = Some (Inr b')"
      by (auto split: option.splits sum.splits)
    let ?b1 = "set_defaultStruct i d1 b"
    have sp: "same_packers b ?b1" by (rule same_packers_set_default)
    have i1: "i < length (structPackers ?b1)" using Cons.prems(2) by simp
    have d1: "defaultStruct (structPackers ?b1 ! i) = Some d1"
      using Cons.prems(2) by (simp add: default_set_default)
    from Cons.IH [OF r i1 d1] obtain d' where d': "defaultStruct (structPackers b' ! i) = Some d'"
      "rtype d' = rtype d1" and h: "holds_defaults E ?b1 fuel as d1 d'"
      by blast
    from h have h': "holds_defaults E b fuel as d1 d'"
      unfolding holds_defaults_same [OF sp] .
    note s1 = set_field_Inr [OF sf]
    from Some p have db: "default_by E b fuel a x" and hd: "has_default ?f"
      unfolding default_by_def has_default_def by (auto intro: exI [where x = b])
    have "holds_defaults E b fuel (a # as) d d'"
      unfolding holds_defaults_def
    proof
      fix j
      from h' have ih: "case written b has_default as j of
            None \<Rightarrow> member d' j = member d1 j
          | Some a \<Rightarrow> \<exists>x. default_by E b fuel a x \<and> member d' j = Some x"
        unfolding holds_defaults_def by blast
      show "case written b has_default (a # as) j of
            None \<Rightarrow> member d' j = member d j
          | Some a \<Rightarrow> \<exists>x. default_by E b fuel a x \<and> member d' j = Some x"
      proof (cases "written b has_default as j")
        case None
        with ih have m: "member d' j = member d1 j" by simp
        show ?thesis
        proof (cases "findex ?f = j")
          case True
          with s1 [of j] have "member d1 j = Some x" by simp
          with m db hd None True show ?thesis by (auto simp add: written_Cons)
        next
          case False
          with s1 [of j] have "member d1 j = member d j" by simp
          with m None False show ?thesis by (simp add: written_Cons)
        qed
      next
        case (Some a')
        with ih show ?thesis by (simp add: written_Cons)
      qed
    qed
    with d' s1 [of 0] show ?thesis by auto
  qed
qed

lemma setDefaults_others:
  assumes "setDefaults E fuel i as b = Some (Inr b')" "i' \<noteq> i"
  shows "structPackers b' ! i' = structPackers b ! i'"
  using assms
proof (induction as arbitrary: b)
  case Nil
  then show ?case by simp
next
  case (Cons a as)
  show ?case
  proof (cases "fdef (fieldObjs b ! a)")
    case None
    with Cons show ?thesis by (simp split: if_splits)
  next
    case (Some dv)
    with Cons.prems(1) obtain d' where
      s: "setDefaults E fuel i as (set_defaultStruct i d' b) = Some (Inr b')"
      by (auto split: if_splits option.splits sum.splits)
    from Cons.IH [OF s Cons.prems(2)] Cons.prems(2) show ?thesis
      by (simp add: set_defaultStruct_def)
  qed
qed

lemma finishStructs_others:
  assumes "finishStructs E fuel is b = Some (Inr b')" "i \<notin> set is"
  shows "structPackers b' ! i = structPackers b ! i"
  using assms
proof (induction "is" arbitrary: b)
  case Nil
  then show ?case by simp
next
  case (Cons i0 "is")
  from Cons.prems(1) obtain b1 where s: "setDefaults E fuel i0 (fieldRefs (structPackers b ! i0))
      (set_defaultStruct i0 (RStruct (structType (structPackers b ! i0)) []) b) = Some (Inr b1)"
    and f: "finishStructs E fuel is b1 = Some (Inr b')"
    by (auto split: option.splits sum.splits)
  from Cons.prems(2) have n: "i \<noteq> i0" "i \<notin> set is" by auto
  from Cons.IH [OF f n(2)] setDefaults_others [OF s n(1)] n(1) show ?case
    by (simp add: set_defaultStruct_def)
qed

lemma same_packers_nth:
  assumes "same_packers b b'" "i < length (structPackers b)"
  shows "structType (structPackers b' ! i) = structType (structPackers b ! i)"
    and "fieldRefs (structPackers b' ! i) = fieldRefs (structPackers b ! i)"
    and "usePtr (structPackers b' ! i) = usePtr (structPackers b ! i)"
proof -
  from assms(1) have m: "map structType (structPackers b') = map structType (structPackers b)"
    "map fieldRefs (structPackers b') = map fieldRefs (structPackers b)"
    "map usePtr (structPackers b') = map usePtr (structPackers b)"
    by (simp_all add: same_packers_def)
  from same_packers_length [OF assms(1)] assms(2) have l: "i < length (structPackers b')" by simp
  from arg_cong [OF m(1), of "\<lambda>xs. xs ! i"] assms(2) l
  show "structType (structPackers b' ! i) = structType (structPackers b ! i)" by simp
  from arg_cong [OF m(2), of "\<lambda>xs. xs ! i"] assms(2) l
  show "fieldRefs (structPackers b' ! i) = fieldRefs (structPackers b ! i)" by simp
  from arg_cong [OF m(3), of "\<lambda>xs. xs ! i"] assms(2) l
  show "usePtr (structPackers b' ! i) = usePtr (structPackers b ! i)" by simp
qed

lemma prototype_ok_same:
  assumes "same_packers b b'" "i < length (structPackers b)"
  shows "prototype_ok E b' fuel i d = prototype_ok E b fuel i d"
  unfolding prototype_ok_def holds_defaults_same [OF assms(1)]
    same_packers_nth [OF assms] ..

lemma finishStructs_spec:
  assumes "finishStructs E fuel is b = Some (Inr b')" "distinct is"
    "\<forall>i \<in> set is. i < length (structPackers b)" "i \<in> set is"
  shows "\<exists>d. defaultStruct (structPackers b' ! i) = Some d \<and> prototype_ok E b fuel i d"
  using assms
proof (induction "is" arbitrary: b)
  case Nil
  then show ?case by simp
next
  case (Cons i0 "is")
  let ?st = "structType (structPackers b ! i0)"
  let ?b0 = "set_defaultStruct i0 (RStruct ?st []) b"
  from Cons.prems(1) obtain b1 where s: "setDefaults E fuel i0 (fieldRefs (structPackers b ! i0)) ?b0
      = Some (Inr b1)"
    and f: "finishStructs E fuel is b1 = Some (Inr b')"
    by (auto split: option.splits sum.splits)
  from Cons.prems(3) have i0: "i0 < length (structPackers b)" by simp
  have sp0: "same_packers b ?b0" by (rule same_packers_set_default)
  have sp1: "same_packers b b1" by (rule same_packers_trans [OF sp0 setDefaults_same [OF s]])
  show ?case
  proof (cases "i = i0")
    case True
    have "defaultStruct (structPackers ?b0 ! i0) = Some (RStruct ?st [])"
      using i0 by (simp add: default_set_default)
    from setDefaults_spec [OF s _ this] i0 obtain d where
      d: "defaultStruct (structPackers b1 ! i0) = Some d" "rtype d = Some ?st"
      and h: "holds_defaults E ?b0 fuel (fieldRefs (structPackers b ! i0)) (RStruct ?st []) d"
      by auto
    from Cons.prems(2) have "i0 \<notin> set is" by simp
    from finishStructs_others [OF f this] d(1)
    have "defaultStruct (structPackers b' ! i0) = Some d" by simp
    moreover from h d(2) have "prototype_ok E b fuel i0 d"
      unfolding prototype_ok_def holds_defaults_same [OF sp0] by simp
    ultimately show ?thesis using True by blast
  next
    case False
    with Cons.prems(4) have i: "i \<in> set is" by simp
    from Cons.prems(2) have d: "distinct is" by simp
    from Cons.prems(3) same_packers_length [OF sp1]
    have l: "\<forall>i \<in> set is. i < length (structPackers b1)" by simp
    from Cons.IH [OF f d l i] obtain d where
      "defaultStruct (structPackers b' ! i) = Some d" "prototype_ok E b1 fuel i d" by blast
    moreover from Cons.prems(3) i have "i < length (structPackers b)" by simp
    ultimately show ?thesis using prototype_ok_same [OF sp1] by blast
  qed
qed

lemma Finish_prototype:
  assumes "Finish E fuel b = Some (Inr bf)" "i < length (structPackers bf)"
  shows "\<exists>d. defaultStruct (structPackers bf ! i) = Some d \<and> prototype_ok E bf fuel i d"
proof -
  note f = assms(1) [unfolded Finish_def]
  note sp = finishStructs_same [OF f]
  have l: "length (structPackers bf) = length (structPackers b)"
    using same_packers_length [OF sp] by simp
  have "\<exists>d. defaultStruct (structPackers bf ! i) = Some d
      \<and> prototype_ok E (assignTargets b) fuel i d"
    by (rule finishStructs_spec [OF f]) (use assms(2) l in simp_all)
  then show ?thesis
    using prototype_ok_same [OF sp, of i] assms(2) l by simp
qed

lemma same_objects_length:
  assumes "same_objects b b'"
  shows "length (structPackers b') = length (structPackers b)"
    "length (listPackers b') = length (listPackers b)"
    "length (fieldObjs b') = length (fieldObjs b)"
  using assms unfolding same_objects_def
  by (auto dest: arg_cong [where f = length])

lemma same_objects_nth:
  assumes "same_objects b b'"
  shows "i < length (structPackers b) \<Longrightarrow> fieldRefs (structPackers b' ! i) = fieldRefs (structPackers b ! i)"
    and "a < length (fieldObjs b) \<Longrightarrow> fdef (fieldObjs b' ! a) = fdef (fieldObjs b ! a)"
proof -
  from assms have m: "map fieldRefs (structPackers b') = map fieldRefs (structPackers b)"
    "map fdef (fieldObjs b') = map fdef (fieldObjs b)"
    by (simp_all add: same_objects_def)
  note l = same_objects_length [OF assms]
  show "i < length (structPackers b) \<Longrightarrow> fieldRefs (structPackers b' ! i) = fieldRefs (structPackers b ! i)"
    using arg_cong [OF m(1), of "\<lambda>xs. xs ! i"] l by simp
  show "a < length (fieldObjs b) \<Longrightarrow> fdef (fieldObjs b' ! a) = fdef (fieldObjs b ! a)"
    using arg_cong [OF m(2), of "\<lambda>xs. xs ! a"] l by simp
qed

lemma closed_same_objects: "same_objects b b' \<Longrightarrow> closed b' p = closed b p"
  by (induction b p rule: closed.induct) (simp_all add: same_objects_length)

lemma Finish_default_fields:
  assumes r: "reachable E b" and f: "Finish E fuel b = Some (Inr bf)"
    and i: "i < length (structPackers bf)" and a: "a \<in> set (fieldRefs (structPackers bf ! i))"
  shows "a < length (fieldObjs bf) \<and> closed bf (fpacker (fieldObjs bf ! a))
     \<and> (has_default (fieldObjs bf ! a) \<longrightarrow> non_null_packer (fpacker (fieldObjs bf ! a)))"
proof -
  note c = reachable_complete [OF r]
  from c have wf: "wf_targets b" and reg: "registered b" and pe: "pending b = {}"
    and dt: "default_targets b"
    unfolding complete_def sound_def by simp_all
  note so = Finish_same [OF f]
  note l = same_objects_length [OF so]
  from i l have ib: "i < length (structPackers b)" by simp
  from a same_objects_nth(1) [OF so ib] have "a \<in> set (fieldRefs (structPackers b ! i))" by simp
  with reg ib obtain k where o: "owns b k (PackerOf a)"
    unfolding registered_def by (metis nth_mem)
  with dt have ab: "a < length (fieldObjs b)"
    and nn: "fdef (fieldObjs b ! a) \<noteq> None \<longrightarrow> snd (unwrapNonNull (fst k))"
    unfolding default_targets_def by blast+
  from o obtain e where e: "entry_of b k = Some e" "PackerOf a \<in> set (targets e)"
    unfolding owns_def by blast
  from pe e(1) have ok: "entry_ok b k e" unfolding pending_def by blast
  from Finish_read [OF f wf e] have p: "fpacker (fieldObjs bf ! a) = packer e" by simp
  from ok have "closed b (packer e)" unfolding entry_ok_def by simp
  then have "closed bf (fpacker (fieldObjs bf ! a))"
    unfolding p closed_same_objects [OF so] .
  moreover have "has_default (fieldObjs bf ! a) \<longrightarrow> non_null_packer (fpacker (fieldObjs bf ! a))"
    using ok nn same_objects_nth(2) [OF so ab]
    unfolding p has_default_def entry_ok_def by simp
  ultimately show ?thesis using ab l by simp
qed

lemma packFields_first_error:
  assumes "\<forall>a' \<in> set pre. a' < length (fieldObjs b) \<and> \<not> present vals (fieldObjs b ! a')"
    "a < length (fieldObjs b)" "map_of vals (fname (fieldObjs b ! a)) = Some v"
    "Pack E b n (fpacker (fieldObjs b ! a)) v = Some (Inl err)"
  shows "packFields E b n st (pre @ a # post) vals s = Some (Inl err)"
  using assms(1)
proof (induction pre)
  case Nil
  show ?case using assms(2-4) by simp
next
  case (Cons a' pre)
  then show ?case by (simp add: present_def)
qed

lemma null_is_error:
  assumes "non_null_packer p" "closed b p"
    "\<forall>t. p = unmarshalerPacker t \<longrightarrow> \<not> isNullable E t" "\<forall>l. p \<noteq> ListPackerAt l"
  shows "Pack E b n p VNil = Some (Inl (Error ''got null for non-null''))"
  using assms
  by (cases p) (simp_all add: ValuePacker_Pack_def unmarshalerPacker_Pack_def)

lemma overrides_distinct:
  assumes "distinct_members b as" "overrides E b n vals as d s" "a \<in> set as"
  shows "(present vals (fieldObjs b ! a) \<longrightarrow>
            (\<exists>x. packed_by E b n vals a x \<and> member s (findex (fieldObjs b ! a)) = Some x))
       \<and> (\<not> present vals (fieldObjs b ! a) \<longrightarrow>
            member s (findex (fieldObjs b ! a)) = member d (findex (fieldObjs b ! a)))"
proof -
  from written_distinct [OF assms(1) [unfolded distinct_members_def] assms(3)]
  have w: "written b (present vals) as (findex (fieldObjs b ! a))
      = (if present vals (fieldObjs b ! a) then Some a else None)" .
  from assms(2) have "case written b (present vals) as (findex (fieldObjs b ! a)) of
            None \<Rightarrow> member s (findex (fieldObjs b ! a)) = member d (findex (fieldObjs b ! a))
          | Some a' \<Rightarrow> \<exists>x. packed_by E b n vals a' x \<and> member s (findex (fieldObjs b ! a)) = Some x"
    unfolding overrides_def by blast
  then show ?thesis unfolding w by (simp split: if_splits)
qed

lemma holds_defaults_distinct:
  assumes "distinct_members b as" "holds_defaults E b fuel as d d'" "a \<in> set as"
  shows "(has_default (fieldObjs b ! a) \<longrightarrow>
            (\<exists>x. default_by E b fuel a x \<and> member d' (findex (fieldObjs b ! a)) = Some x))
       \<and> (\<not> has_default (fieldObjs b ! a) \<longrightarrow>
            member d' (findex (fieldObjs b ! a)) = member d (findex (fieldObjs b ! a)))"
proof -
  from written_distinct [OF assms(1) [unfolded distinct_members_def] assms(3)]
  have w: "written b has_default as (findex (fieldObjs b ! a))
      = (if has_default (fieldObjs b ! a) then Some a else None)" .
  from assms(2) have "case written b has_default as (findex (fieldObjs b ! a)) of
            None \<Rightarrow> member d' (findex (fieldObjs b ! a)) = member d (findex (fieldObjs b ! a))
          | Some a' \<Rightarrow> \<exists>x. default_by E b fuel a' x \<and> member d' (findex (fieldObjs b ! a)) = Some x"
    unfolding holds_defaults_def by blast
  then show ?thesis unfolding w by (simp split: if_splits)
qed

lemma Pack_struct_Inr:
  assumes "i < length (structPackers b)"
    "Pack E b (Suc n) (StructPackerAt i) (VMap vals) = Some (Inr r)"
  shows "\<exists>d s. defaultStruct (structPackers b ! i) = Some d
     \<and> can_Set (structType (structPackers b ! i)) d
     \<and> packFields E b n (structType (structPackers b ! i)) (fieldRefs (structPackers b ! i)) vals d
          = Some (Inr s)
     \<and> r = (if usePtr (structPackers b ! i) then RPtr (structType (structPackers b ! i)) s else s)"
  using assms
  by (auto simp add: Let_def split: option.splits sum.splits if_splits)

lemma Pack_struct_eq:
  assumes "i < length (structPackers b)" "defaultStruct (structPackers b ! i) = Some d"
    "can_Set (structType (structPackers b ! i)) d"
  shows "Pack E b (Suc n) (StructPackerAt i) (VMap vals) =
     (case packFields E b n (structType (structPackers b ! i)) (fieldRefs (structPackers b ! i)) vals d of
        None \<Rightarrow> None
      | Some (Inl err) \<Rightarrow> Some (Inl err)
      | Some (Inr s) \<Rightarrow>
          Some (Inr (if usePtr (structPackers b ! i) then RPtr (structType (structPackers b ! i)) s
                     else s)))"
  using assms by (simp add: Let_def)

lemma can_Set_rtype: "rtype d = Some t \<Longrightarrow> can_Set t d"
  by (simp add: can_Set_def AssignableTo_def)

lemma Pack_unfinished:
  assumes "unfinished b" "i < length (structPackers b)"
  shows "Pack E b n (StructPackerAt i) (VMap vals)
     = Some (Inl (Panic ''reflect: call of reflect.Value.Set on zero Value''))"
proof -
  from assms have "defaultStruct (structPackers b ! i) = None"
    unfolding unfinished_def by simp
  with assms(2) show ?thesis by (simp add: Let_def)
qed

text \<open>
  C4. When the struct packer \<open>i\<close> of a store packs an input map, it starts from its
  prototype \<open>d\<close>: the result is the struct \<open>s\<close> (or the pointer to it) in which every member
  that no field of the input map is bound to is as in \<open>d\<close>, and every other member holds
  what the packer of the last such field returns for the field's value; every field of the
  input map is packed by its own packer; when the fields are bound to different members,
  each field of the input map sets its member and each absent field leaves its member as
  in the prototype. The pack returns a value whenever the prototype is a struct and the
  packers of the fields of the input map return values that can be stored in their
  members. While the builder makes struct packers no prototype exists, and packing a map
  panics; \<^verbatim>\<open>Finish\<close> gives every struct packer its prototype: a struct of its type in
  which a member holds the packed default value of the last field with a default bound to
  it, and is the zero value when there is none.
\<close>

theorem C4_struct_packer:
  "(i < length (structPackers b) \<and> Pack E b (Suc n) (StructPackerAt i) (VMap vals) = Some (Inr r) \<longrightarrow>
      (\<exists>d s. defaultStruct (structPackers b ! i) = Some d
         \<and> r = (if usePtr (structPackers b ! i) then RPtr (structType (structPackers b ! i)) s else s)
         \<and> rtype s = rtype d
         \<and> overrides E b n vals (fieldRefs (structPackers b ! i)) d s
         \<and> (\<forall>a \<in> set (fieldRefs (structPackers b ! i)).
              (present vals (fieldObjs b ! a) \<longrightarrow> (\<exists>x. packed_by E b n vals a x))
              \<and> (distinct_members b (fieldRefs (structPackers b ! i)) \<longrightarrow>
                   (present vals (fieldObjs b ! a) \<longrightarrow>
                      (\<exists>x. packed_by E b n vals a x \<and> member s (findex (fieldObjs b ! a)) = Some x))
                   \<and> (\<not> present vals (fieldObjs b ! a) \<longrightarrow>
                        member s (findex (fieldObjs b ! a)) = member d (findex (fieldObjs b ! a)))))))
   \<and> (i < length (structPackers b)
        \<and> defaultStruct (structPackers b ! i) = Some (RStruct (structType (structPackers b ! i)) fs)
        \<and> (\<forall>a \<in> set (fieldRefs (structPackers b ! i)). a < length (fieldObjs b)
              \<and> (present vals (fieldObjs b ! a) \<longrightarrow>
                    (\<exists>x. packed_by E b n vals a x \<and> settable E b (structType (structPackers b ! i)) a x)))
        \<longrightarrow> (\<exists>r. Pack E b (Suc n) (StructPackerAt i) (VMap vals) = Some (Inr r)))
   \<and> (reachable E b \<and> i < length (structPackers b) \<longrightarrow>
        defaultStruct (structPackers b ! i) = None
        \<and> Pack E b n (StructPackerAt i) (VMap vals)
          = Some (Inl (Panic ''reflect: call of reflect.Value.Set on zero Value'')))
   \<and> (Finish E fuel b = Some (Inr bf) \<and> i < length (structPackers b) \<longrightarrow>
        i < length (structPackers bf)
        \<and> (\<exists>d. defaultStruct (structPackers bf ! i) = Some d
             \<and> rtype d = Some (structType (structPackers bf ! i))
             \<and> holds_defaults E bf fuel (fieldRefs (structPackers bf ! i))
                  (RStruct (structType (structPackers bf ! i)) []) d
             \<and> (distinct_members bf (fieldRefs (structPackers bf ! i)) \<longrightarrow>
                  (\<forall>a \<in> set (fieldRefs (structPackers bf ! i)).
                     (has_default (fieldObjs bf ! a) \<longrightarrow>
                        (\<exists>x. default_by E bf fuel a x \<and> member d (findex (fieldObjs bf ! a)) = Some x))
                     \<and> (\<not> has_default (fieldObjs bf ! a) \<longrightarrow>
                          member d (findex (fieldObjs bf ! a)) = None)))))"
proof (intro conjI impI)
  let ?p = "structPackers b ! i"
  assume a: "i < length (structPackers b) \<and> Pack E b (Suc n) (StructPackerAt i) (VMap vals) = Some (Inr r)"
  then obtain d s where d: "defaultStruct ?p = Some d"
    and pf: "packFields E b n (structType ?p) (fieldRefs ?p) vals d = Some (Inr s)"
    and r: "r = (if usePtr ?p then RPtr (structType ?p) s else s)"
    using Pack_struct_Inr [of i b E n vals r] by blast
  note pi = packFields_Inr [OF pf]
  from pi have ov: "overrides E b n vals (fieldRefs ?p) d s"
    unfolding overrides_def by blast
  have "(present vals (fieldObjs b ! a) \<longrightarrow> (\<exists>x. packed_by E b n vals a x))
       \<and> (distinct_members b (fieldRefs ?p) \<longrightarrow>
             (present vals (fieldObjs b ! a) \<longrightarrow>
                (\<exists>x. packed_by E b n vals a x \<and> member s (findex (fieldObjs b ! a)) = Some x))
             \<and> (\<not> present vals (fieldObjs b ! a) \<longrightarrow>
                  member s (findex (fieldObjs b ! a)) = member d (findex (fieldObjs b ! a))))"
    if "a \<in> set (fieldRefs ?p)" for a
    using pi that overrides_distinct [OF _ ov that] by blast
  with d r pi ov show "\<exists>d s. defaultStruct ?p = Some d
         \<and> r = (if usePtr ?p then RPtr (structType ?p) s else s)
         \<and> rtype s = rtype d
         \<and> overrides E b n vals (fieldRefs ?p) d s
         \<and> (\<forall>a \<in> set (fieldRefs ?p).
              (present vals (fieldObjs b ! a) \<longrightarrow> (\<exists>x. packed_by E b n vals a x))
              \<and> (distinct_members b (fieldRefs ?p) \<longrightarrow>
                   (present vals (fieldObjs b ! a) \<longrightarrow>
                      (\<exists>x. packed_by E b n vals a x \<and> member s (findex (fieldObjs b ! a)) = Some x))
                   \<and> (\<not> present vals (fieldObjs b ! a) \<longrightarrow>
                        member s (findex (fieldObjs b ! a)) = member d (findex (fieldObjs b ! a)))))"
    by blast
next
  let ?p = "structPackers b ! i"
  assume a: "i < length (structPackers b)
        \<and> defaultStruct ?p = Some (RStruct (structType ?p) fs)
        \<and> (\<forall>a \<in> set (fieldRefs ?p). a < length (fieldObjs b)
              \<and> (present vals (fieldObjs b ! a) \<longrightarrow>
                    (\<exists>x. packed_by E b n vals a x \<and> settable E b (structType ?p) a x)))"
  then have "\<exists>s'. packFields E b n (structType ?p) (fieldRefs ?p) vals (RStruct (structType ?p) fs)
      = Some (Inr s')"
    by (intro packFields_returns) (simp add: settable_def)
  then obtain s' where "packFields E b n (structType ?p) (fieldRefs ?p) vals
      (RStruct (structType ?p) fs) = Some (Inr s')" by blast
  with a Pack_struct_eq [of i b "RStruct (structType ?p) fs" E n vals]
  show "\<exists>r. Pack E b (Suc n) (StructPackerAt i) (VMap vals) = Some (Inr r)"
    by simp
next
  assume a: "reachable E b \<and> i < length (structPackers b)"
  then have u: "unfinished b" using reachable_complete unfolding complete_def by blast
  with a show "defaultStruct (structPackers b ! i) = None" unfolding unfinished_def by simp
  from Pack_unfinished [OF u] a
  show "Pack E b n (StructPackerAt i) (VMap vals)
      = Some (Inl (Panic ''reflect: call of reflect.Value.Set on zero Value''))"
    by simp
next
  assume a: "Finish E fuel b = Some (Inr bf) \<and> i < length (structPackers b)"
  then have f: "Finish E fuel b = Some (Inr bf)" by simp
  from same_objects_length(1) [OF Finish_same [OF f]] a
  show i: "i < length (structPackers bf)" by simp
  from Finish_prototype [OF f i] obtain d where d: "defaultStruct (structPackers bf ! i) = Some d"
    and p: "prototype_ok E bf fuel i d" by blast
  let ?p = "structPackers bf ! i"
  from p have t: "rtype d = Some (structType ?p)"
    and h: "holds_defaults E bf fuel (fieldRefs ?p) (RStruct (structType ?p) []) d"
    unfolding prototype_ok_def by simp_all
  have "(has_default (fieldObjs bf ! a) \<longrightarrow>
            (\<exists>x. default_by E bf fuel a x \<and> member d (findex (fieldObjs bf ! a)) = Some x))
        \<and> (\<not> has_default (fieldObjs bf ! a) \<longrightarrow> member d (findex (fieldObjs bf ! a)) = None)"
    if "distinct_members bf (fieldRefs ?p)" "a \<in> set (fieldRefs ?p)" for a
    using holds_defaults_distinct [OF that(1) h that(2)] by simp
  with d t h show "\<exists>d. defaultStruct ?p = Some d
             \<and> rtype d = Some (structType ?p)
             \<and> holds_defaults E bf fuel (fieldRefs ?p) (RStruct (structType ?p) []) d
             \<and> (distinct_members bf (fieldRefs ?p) \<longrightarrow>
                  (\<forall>a \<in> set (fieldRefs ?p).
                     (has_default (fieldObjs bf ! a) \<longrightarrow>
                        (\<exists>x. default_by E bf fuel a x \<and> member d (findex (fieldObjs bf ! a)) = Some x))
                     \<and> (\<not> has_default (fieldObjs bf ! a) \<longrightarrow>
                          member d (findex (fieldObjs bf ! a)) = None)))"
    by blast
qed

lemma makeFields_prefix:
  "makeFields E n b typ st vs fs = Some (Inr (fs', b')) \<Longrightarrow> prefix fs fs'"
proof (induction vs arbitrary: b fs)
  case Nil
  then show ?case by (simp add: makeFields.simps)
next
  case (Cons v vs)
  from makeFields_Cons_Inr [OF Cons.prems] obtain b2 where
    "makeFields E n b2 typ st vs (fs @ [length (fieldObjs b)]) = Some (Inr (fs', b'))"
    by blast
  from Cons.IH [OF this] show ?case by (rule append_prefixD)
qed

lemma makeFields_head:
  assumes "makeFields E n b typ st (v # vs) fs = Some (Inr (fs', b'))"
  shows "\<exists>idx sf. matching_field E st v = Some (idx, sf)
     \<and> owns b' (fst (field_type v (new_field v idx b)), sfType sf) (PackerOf (length (fieldObjs b)))
     \<and> length (fieldObjs b) \<in> set fs'
     \<and> length (fieldObjs b) < length (fieldObjs b')
     \<and> fieldObjs b' ! length (fieldObjs b)
        = \<lparr>fname = Name v, findex = idx, fdef = Default v, fpacker = NilPacker\<rparr>"
proof -
  from makeFields_Cons_Inr [OF assms] obtain idx sf ft b1 b2 where
    m: "FieldByNameFunc E st (\<lambda>nm. EqualFold (stripUnderscore nm) (stripUnderscore (Name v)))
            = Some (idx, sf)"
    and ft: "field_type v (new_field v idx b) = (ft, b1)"
    and ap: "assignPacker E n b1 (PackerOf (length (fieldObjs b))) ft (sfType sf) = Some (Inr b2)"
    and mf: "makeFields E n b2 typ st vs (fs @ [length (fieldObjs b)]) = Some (Inr (fs', b'))"
    by blast
  from ft have b1: "b1 = snd (field_type v (new_field v idx b))"
    and ft': "ft = fst (field_type v (new_field v idx b))" by simp_all
  have g: "grows b1 b'" by (rule ext_trans [OF assignPacker_ext [OF ap] makeFields_ext [OF mf]])
  from owns_ext [OF makeFields_ext [OF mf] assignPacker_owns [OF ap]]
  have o: "owns b' (fst (field_type v (new_field v idx b)), sfType sf) (PackerOf (length (fieldObjs b)))"
    unfolding ft' .
  from makeFields_prefix [OF mf] have "set (fs @ [length (fieldObjs b)]) \<subseteq> set fs'"
    by (rule set_mono_prefix)
  then have i: "length (fieldObjs b) \<in> set fs'" by simp
  from g have p: "prefix (fieldObjs b1) (fieldObjs b')" unfolding grows_def by simp
  have l: "length (fieldObjs b) < length (fieldObjs b1)" unfolding b1 by simp
  from prefix_nth [OF p l] prefix_length_le [OF p] l
  have "length (fieldObjs b) < length (fieldObjs b')"
    "fieldObjs b' ! length (fieldObjs b)
        = \<lparr>fname = Name v, findex = idx, fdef = Default v, fpacker = NilPacker\<rparr>"
    unfolding b1 by simp_all
  with m o i show ?thesis unfolding matching_field_def by blast
qed

lemma split_at_member:
  "a \<in> set as \<Longrightarrow> as = takeWhile (\<lambda>a'. a' \<noteq> a) as @ a # tl (dropWhile (\<lambda>a'. a' \<noteq> a) as)"
  by (induction as) auto

text \<open>
  C10, as the code has it. For a field with a default value the builder asks for the
  packer of \<^verbatim>\<open>&ast.NonNull{OfType: t}\<close>, \<open>t\<close> being the declared type without its
  \<^verbatim>\<open>NonNull\<close>, and records the field's packer in the slot of that type and the type of
  the member. After \<^verbatim>\<open>Finish\<close> every field with a default of every struct packer holds
  a value packer, an unmarshaler packer, a list packer or a struct packer of the store,
  never a nullable wrapper. Unless that packer is a list packer or the unmarshaler packer
  of a nullable unmarshaler type, it returns the error "got null for non-null" for null,
  and so does the struct packer for an input map that gives null for the field, no
  earlier field being in the map. When the field is not in the input map, and the fields
  are bound to different members, its member holds the packed default value.
\<close>

theorem C10_default_fields:
  "(Default v \<noteq> None \<longrightarrow>
      fst (field_type v b0) = NonNullType (Allocated (allocated b0)) (fst (unwrapNonNull (Type v))))
   \<and> (makeFields E n b0 typ st (v # vs) fs = Some (Inr (fs', b1)) \<longrightarrow>
        (\<exists>idx sf. matching_field E st v = Some (idx, sf)
           \<and> owns b1 (fst (field_type v (new_field v idx b0)), sfType sf)
                (PackerOf (length (fieldObjs b0)))
           \<and> length (fieldObjs b0) \<in> set fs'
           \<and> fdef (fieldObjs b1 ! length (fieldObjs b0)) = Default v))
   \<and> (reachable E b \<and> Finish E fuel b = Some (Inr bf) \<and> i < length (structPackers bf)
        \<and> a \<in> set (fieldRefs (structPackers bf ! i)) \<and> has_default (fieldObjs bf ! a) \<longrightarrow>
        non_null_packer (fpacker (fieldObjs bf ! a)) \<and> closed bf (fpacker (fieldObjs bf ! a))
        \<and> ((\<forall>l. fpacker (fieldObjs bf ! a) \<noteq> ListPackerAt l)
              \<and> (\<forall>t. fpacker (fieldObjs bf ! a) = unmarshalerPacker t \<longrightarrow> \<not> isNullable E t) \<longrightarrow>
            Pack E bf m (fpacker (fieldObjs bf ! a)) VNil = Some (Inl (Error ''got null for non-null''))
            \<and> (map_of vals (fname (fieldObjs bf ! a)) = Some VNil
                 \<and> (\<forall>a' \<in> set (takeWhile (\<lambda>a'. a' \<noteq> a) (fieldRefs (structPackers bf ! i))).
                       \<not> present vals (fieldObjs bf ! a')) \<longrightarrow>
                Pack E bf (Suc m) (StructPackerAt i) (VMap vals)
                  = Some (Inl (Error ''got null for non-null''))))
        \<and> (distinct_members bf (fieldRefs (structPackers bf ! i))
              \<and> \<not> present vals (fieldObjs bf ! a)
              \<and> Pack E bf (Suc m) (StructPackerAt i) (VMap vals) = Some (Inr r) \<longrightarrow>
            (\<exists>x. default_by E bf fuel a x
               \<and> member (if usePtr (structPackers bf ! i) then struct_value r else r)
                    (findex (fieldObjs bf ! a)) = Some x)))"
proof (intro conjI impI)
  assume "Default v \<noteq> None"
  then show "fst (field_type v b0)
      = NonNullType (Allocated (allocated b0)) (fst (unwrapNonNull (Type v)))"
    by (simp add: field_type_def)
next
  assume "makeFields E n b0 typ st (v # vs) fs = Some (Inr (fs', b1))"
  from makeFields_head [OF this]
  show "\<exists>idx sf. matching_field E st v = Some (idx, sf)
           \<and> owns b1 (fst (field_type v (new_field v idx b0)), sfType sf)
                (PackerOf (length (fieldObjs b0)))
           \<and> length (fieldObjs b0) \<in> set fs'
           \<and> fdef (fieldObjs b1 ! length (fieldObjs b0)) = Default v"
    by auto
next
  let ?p = "structPackers bf ! i" and ?f = "fieldObjs bf ! a"
  assume h: "reachable E b \<and> Finish E fuel b = Some (Inr bf) \<and> i < length (structPackers bf)
        \<and> a \<in> set (fieldRefs ?p) \<and> has_default ?f"
  then have r: "reachable E b" and f: "Finish E fuel b = Some (Inr bf)"
    and i: "i < length (structPackers bf)" and a: "a \<in> set (fieldRefs ?p)"
    and hd: "has_default ?f" by simp_all
  note df = Finish_default_fields [OF r f i]
  from df [OF a] hd show nn: "non_null_packer (fpacker ?f)" and cl: "closed bf (fpacker ?f)"
    by simp_all
  from Finish_prototype [OF f i] obtain d where d: "defaultStruct ?p = Some d"
    and po: "prototype_ok E bf fuel i d" by blast
  from po have cs: "can_Set (structType ?p) d"
    unfolding prototype_ok_def by (simp add: can_Set_rtype)
  { assume k: "(\<forall>l. fpacker ?f \<noteq> ListPackerAt l)
              \<and> (\<forall>t. fpacker ?f = unmarshalerPacker t \<longrightarrow> \<not> isNullable E t)"
    then show e: "Pack E bf m (fpacker ?f) VNil = Some (Inl (Error ''got null for non-null''))"
      using null_is_error [OF nn cl] by blast
    assume v: "map_of vals (fname ?f) = Some VNil
                 \<and> (\<forall>a' \<in> set (takeWhile (\<lambda>a'. a' \<noteq> a) (fieldRefs ?p)).
                       \<not> present vals (fieldObjs bf ! a'))"
    have pre: "\<forall>a' \<in> set (takeWhile (\<lambda>a'. a' \<noteq> a) (fieldRefs ?p)).
        a' < length (fieldObjs bf) \<and> \<not> present vals (fieldObjs bf ! a')"
    proof
      fix a' assume a': "a' \<in> set (takeWhile (\<lambda>a'. a' \<noteq> a) (fieldRefs ?p))"
      then have "a' \<in> set (fieldRefs ?p)" by (rule set_takeWhileD [THEN conjunct1])
      from df [OF this] v a'
      show "a' < length (fieldObjs bf) \<and> \<not> present vals (fieldObjs bf ! a')" by simp
    qed
    from df [OF a] have al: "a < length (fieldObjs bf)" by simp
    from v have vn: "map_of vals (fname ?f) = Some VNil" by simp
    have "packFields E bf m (structType ?p)
        (takeWhile (\<lambda>a'. a' \<noteq> a) (fieldRefs ?p) @ a # tl (dropWhile (\<lambda>a'. a' \<noteq> a) (fieldRefs ?p)))
        vals d = Some (Inl (Error ''got null for non-null''))"
      by (rule packFields_first_error [OF pre al vn e])
    then have "packFields E bf m (structType ?p) (fieldRefs ?p) vals d
        = Some (Inl (Error ''got null for non-null''))"
      using split_at_member [OF a] by simp
    then show "Pack E bf (Suc m) (StructPackerAt i) (VMap vals)
        = Some (Inl (Error ''got null for non-null''))"
      unfolding Pack_struct_eq [OF i d cs] by simp }
  { assume q: "distinct_members bf (fieldRefs ?p) \<and> \<not> present vals ?f
              \<and> Pack E bf (Suc m) (StructPackerAt i) (VMap vals) = Some (Inr r)"
    then obtain d' s where d': "defaultStruct ?p = Some d'"
      and pf: "packFields E bf m (structType ?p) (fieldRefs ?p) vals d' = Some (Inr s)"
      and rs: "r = (if usePtr ?p then RPtr (structType ?p) s else s)"
      using Pack_struct_Inr [OF i, of E m vals r] by blast
    from d d' have dd: "d' = d" by simp
    from packFields_Inr [OF pf] have ov: "overrides E bf m vals (fieldRefs ?p) d s"
      and ts: "rtype s = rtype d" unfolding overrides_def dd by blast+
    from q overrides_distinct [OF _ ov a] have m1: "member s (findex ?f) = member d (findex ?f)"
      by blast
    from po have "holds_defaults E bf fuel (fieldRefs ?p) (RStruct (structType ?p) []) d"
      unfolding prototype_ok_def by simp
    from holds_defaults_distinct [OF _ this a] q hd obtain x where
      x: "default_by E bf fuel a x" "member d (findex ?f) = Some x" by blast
    have "(if usePtr ?p then struct_value r else r) = s" unfolding rs by simp
    with m1 x show "\<exists>x. default_by E bf fuel a x
               \<and> member (if usePtr ?p then struct_value r else r) (findex ?f) = Some x"
      by auto }
qed

end
